theory Spec2Isabelle
  imports Complex_Main "HOL-Library.AList" "HOL-Library.Sublist"
begin

section \<open>Decoded JSON values and the Python operations the client applies to them\<close>

text \<open>
  \<^verbatim>\<open>json.loads\<close> yields \<^verbatim>\<open>None\<close>, booleans, integers, floats, strings, lists and
  dictionaries with string keys. A dictionary is kept as an association list read with
  \<open>map_of\<close>. Floats are idealised as reals plus the three special values that
  \<^verbatim>\<open>json.loads\<close> accepts.
\<close>

datatype pyfloat = Finite real | PosInf | NegInf | NaN

datatype json =
    JNull
  | JBool bool
  | JInt int
  | JFloat pyfloat
  | JStr string
  | JArr "json list"
  | JObj "(string \<times> json) list"

text \<open>Python truth value of a decoded value (\<^verbatim>\<open>if x\<close>, \<^verbatim>\<open>not x\<close>).\<close>

fun truthy :: "json \<Rightarrow> bool" where
  "truthy JNull = False"
| "truthy (JBool b) = b"
| "truthy (JInt n) = (n \<noteq> 0)"
| "truthy (JFloat (Finite r)) = (r \<noteq> 0)"
| "truthy (JFloat _) = True"
| "truthy (JStr s) = (s \<noteq> [])"
| "truthy (JArr xs) = (xs \<noteq> [])"
| "truthy (JObj kvs) = (kvs \<noteq> [])"

text \<open>The comparison \<^verbatim>\<open>x != 0\<close>: only numbers and booleans can equal \<^verbatim>\<open>0\<close>.\<close>

fun ne_zero :: "json \<Rightarrow> bool" where
  "ne_zero (JBool b) = b"
| "ne_zero (JInt n) = (n \<noteq> 0)"
| "ne_zero (JFloat (Finite r)) = (r \<noteq> 0)"
| "ne_zero _ = True"

text \<open>\<^verbatim>\<open>d.get(k)\<close> and \<^verbatim>\<open>d.get(k, default)\<close> on a dictionary.\<close>

definition dict_get :: "(string \<times> json) list \<Rightarrow> string \<Rightarrow> json" where
  "dict_get d k = (case map_of d k of None \<Rightarrow> JNull | Some v \<Rightarrow> v)"

definition dict_get_default :: "(string \<times> json) list \<Rightarrow> string \<Rightarrow> json \<Rightarrow> json" where
  "dict_get_default d k dflt = (case map_of d k of None \<Rightarrow> dflt | Some v \<Rightarrow> v)"

text \<open>
  \<^verbatim>\<open>'result' in data\<close>: key membership on a dictionary, element membership on a list,
  substring test on a string, \<^verbatim>\<open>TypeError\<close> (here \<open>None\<close>) on anything else.
\<close>

fun contains_result :: "json \<Rightarrow> bool option" where
  "contains_result (JObj d) = Some (''result'' \<in> set (map fst d))"
| "contains_result (JArr xs) = Some (JStr ''result'' \<in> set xs)"
| "contains_result (JStr s) = Some (sublist ''result'' s)"
| "contains_result _ = None"

section \<open>The MQTT client state (\<^verbatim>\<open>core/mqtt_client.py\<close>)\<close>

text \<open>
  A \<^verbatim>\<open>Future\<close> is an object shared by the caller of \<^verbatim>\<open>publish\<close> and the
  message handler, so futures live in a store indexed by allocation number and the
  pending table maps a transaction id to the number of its future.
\<close>

datatype future_state = Pending | Done json | Failed json

record client_state =
  pending_requests :: "(string \<times> nat) list"
  futures :: "nat \<Rightarrow> future_state"
  next_future :: nat
  osd_data :: "string \<rightharpoonup> json"
  drone_state :: "string \<rightharpoonup> json"
  topo_data :: json
  camera_osd :: "string \<rightharpoonup> json"
  takeoff_height :: json
  flyto_progress :: "string \<rightharpoonup> json"
  osd_timestamps :: "real list"
  last_osd_time :: real
  freq_window :: real

definition none_fields :: "string list \<Rightarrow> (string \<rightharpoonup> json)" where
  "none_fields ks = map_of (map (\<lambda>k. (k, JNull)) ks)"

definition init_client :: client_state where
  "init_client = \<lparr>
     pending_requests = [],
     futures = (\<lambda>_. Pending),
     next_future = 0,
     osd_data = none_fields [''latitude'', ''longitude'', ''height'', ''attitude_head'',
        ''horizontal_speed'', ''speed_x'', ''speed_y'', ''speed_z'',
        ''down_distance'', ''down_enable'', ''down_work'', ''battery_percent''],
     drone_state = none_fields [''mode_code'', ''rth_altitude'', ''distance_limit'',
        ''height_limit'', ''is_in_fixed_speed'', ''night_lights_state''],
     topo_data = JNull,
     camera_osd = none_fields [''payload_index'', ''gimbal_pitch'', ''gimbal_roll'',
        ''gimbal_yaw''],
     takeoff_height = JNull,
     flyto_progress = none_fields [''fly_to_id'', ''status'', ''result'', ''way_point_index'',
        ''remaining_distance'', ''remaining_time'', ''planned_path_points''],
     osd_timestamps = [],
     last_osd_time = 0,
     freq_window = 2 \<rparr>"

text \<open>\<^verbatim>\<open>cleanup_request\<close>: \<^verbatim>\<open>self.pending_requests.pop(tid, None)\<close>.\<close>

definition cleanup_request :: "client_state \<Rightarrow> string \<Rightarrow> client_state" where
  "cleanup_request st tid = st\<lparr>pending_requests := AList.delete tid (pending_requests st)\<rparr>"

text \<open>
  \<^verbatim>\<open>publish\<close>: a fresh future is stored under the transaction id (a dictionary
  assignment, which replaces the value of a key already present) and returned. The
  transport handle exists and its own \<^verbatim>\<open>publish\<close> is a side effect outside this state.
\<close>

definition publish :: "client_state \<Rightarrow> string \<Rightarrow> json \<Rightarrow> string \<Rightarrow> client_state \<times> nat" where
  "publish st method data tid =
     (let f = next_future st
      in (st\<lparr>pending_requests := AList.update tid f (pending_requests st),
              futures := (futures st)(f := Pending),
              next_future := Suc f\<rparr>, f))"

text \<open>
  \<open>store_fields cache ks d\<close> runs the assignments \<^verbatim>\<open>cache[ck] = d.get(dk)\<close> for the
  pairs \<open>(ck, dk)\<close> of \<open>ks\<close>, in order.
\<close>

definition store_fields ::
  "(string \<rightharpoonup> json) \<Rightarrow> (string \<times> string) list \<Rightarrow> (string \<times> json) list \<Rightarrow> (string \<rightharpoonup> json)" where
  "store_fields cache ks d = fold (\<lambda>(ck, dk) m. m(ck \<mapsto> dict_get d dk)) ks cache"

definition same_keys :: "string list \<Rightarrow> (string \<times> string) list" where
  "same_keys ks = map (\<lambda>k. (k, k)) ks"

text \<open>
  The frequency window: the arrival time is appended, then timestamps older than the
  window are popped from the front.
\<close>

definition push_timestamp :: "real \<Rightarrow> real list \<Rightarrow> real \<Rightarrow> real list" where
  "push_timestamp w ts now = dropWhile (\<lambda>t. now - t > w) (ts @ [now])"

text \<open>
  The telemetry handlers. Where \<^verbatim>\<open>data\<close> is not a dictionary the first
  \<^verbatim>\<open>data.get\<close> raises \<^verbatim>\<open>AttributeError\<close>, which the handler's \<^verbatim>\<open>except\<close>
  swallows: the state is what it was at the raise.
\<close>

definition handle_osd :: "client_state \<Rightarrow> real \<Rightarrow> json \<Rightarrow> client_state" where
  "handle_osd st now data =
     (case data of
        JObj d \<Rightarrow>
          (let height = dict_get d ''height''
           in st\<lparr>osd_data := store_fields (osd_data st)
                    (same_keys [''latitude'', ''longitude'', ''height'', ''attitude_head'',
                       ''horizontal_speed'', ''speed_x'', ''speed_y'', ''speed_z'']) d,
                 takeoff_height :=
                    (if height \<noteq> JNull \<and> takeoff_height st = JNull then height
                     else takeoff_height st),
                 last_osd_time := now,
                 osd_timestamps := push_timestamp (freq_window st) (osd_timestamps st) now\<rparr>)
      | _ \<Rightarrow> st)"

definition handle_hsi :: "client_state \<Rightarrow> json \<Rightarrow> client_state" where
  "handle_hsi st data =
     (case data of
        JObj d \<Rightarrow> st\<lparr>osd_data := store_fields (osd_data st)
                       (same_keys [''down_distance'', ''down_enable'', ''down_work'']) d\<rparr>
      | _ \<Rightarrow> st)"

definition handle_batteries :: "client_state \<Rightarrow> json \<Rightarrow> client_state" where
  "handle_batteries st data =
     (case data of
        JObj d \<Rightarrow> st\<lparr>osd_data := store_fields (osd_data st)
                       [(''battery_percent'', ''capacity_percent'')] d\<rparr>
      | _ \<Rightarrow> st)"

definition handle_drone_state :: "client_state \<Rightarrow> json \<Rightarrow> client_state" where
  "handle_drone_state st data =
     (case data of
        JObj d \<Rightarrow>
          (let st1 = st\<lparr>drone_state := store_fields (drone_state st)
                          (same_keys [''mode_code'', ''rth_altitude'']) d\<rparr>
           in case dict_get_default d ''limit'' (JObj []) of
                JObj l \<Rightarrow>
                  st1\<lparr>drone_state :=
                         store_fields
                           (store_fields (drone_state st1)
                              (same_keys [''distance_limit'', ''height_limit'']) l)
                           (same_keys [''is_in_fixed_speed'', ''night_lights_state'']) d\<rparr>
              | _ \<Rightarrow> st1)
      | _ \<Rightarrow> st)"

definition handle_topo :: "client_state \<Rightarrow> json \<Rightarrow> client_state" where
  "handle_topo st data = st\<lparr>topo_data := data\<rparr>"

definition handle_camera_osd :: "client_state \<Rightarrow> json \<Rightarrow> client_state" where
  "handle_camera_osd st data =
     (case data of
        JObj d \<Rightarrow> st\<lparr>camera_osd := store_fields (camera_osd st)
                       (same_keys [''payload_index'', ''gimbal_pitch'', ''gimbal_roll'',
                          ''gimbal_yaw'']) d\<rparr>
      | _ \<Rightarrow> st)"

definition handle_flyto :: "client_state \<Rightarrow> json \<Rightarrow> client_state" where
  "handle_flyto st data =
     (case data of
        JObj d \<Rightarrow> st\<lparr>flyto_progress := store_fields (flyto_progress st)
                       (same_keys [''fly_to_id'', ''status'', ''result'', ''way_point_index'',
                          ''remaining_distance'', ''remaining_time'',
                          ''planned_path_points'']) d\<rparr>
      | _ \<Rightarrow> st)"

subsection \<open>Resolution of a correlated reply\<close>

text \<open>
  What the handler does with the future it popped: \<open>Raised\<close> stands for an exception
  inside the handler (swallowed by its \<^verbatim>\<open>except\<close>), which leaves the future
  unresolved.
\<close>

datatype reply_outcome = Raised | SetException json | SetResult json

definition body_check :: "json \<Rightarrow> reply_outcome" where
  "body_check data =
     (case contains_result data of
        None \<Rightarrow> Raised
      | Some False \<Rightarrow> SetResult data
      | Some True \<Rightarrow>
          (case data of
             JObj d \<Rightarrow>
               if ne_zero (dict_get d ''result'')
               then (case dict_get_default d ''output'' (JObj []) of
                       JObj out \<Rightarrow> SetException (dict_get_default out ''msg'' (JStr ''Unknown error''))
                     | _ \<Rightarrow> Raised)
               else SetResult data
           | _ \<Rightarrow> Raised))"

definition resolve_reply :: "(string \<times> json) list \<Rightarrow> reply_outcome" where
  "resolve_reply payload =
     (let info = dict_get_default payload ''info'' (JObj []);
          data = dict_get_default payload ''data'' (JObj [])
      in if truthy info
         then (case info of
                 JObj i \<Rightarrow>
                   if ne_zero (dict_get i ''code'')
                   then SetException (dict_get_default i ''message'' (JStr ''Unknown error''))
                   else body_check data
               | _ \<Rightarrow> Raised)
         else body_check data)"

definition handle_reply :: "client_state \<Rightarrow> (string \<times> json) list \<Rightarrow> client_state" where
  "handle_reply st payload =
     (case dict_get payload ''tid'' of
        JStr tid \<Rightarrow>
          if tid = [] then st
          else (case map_of (pending_requests st) tid of
                  None \<Rightarrow> st
                | Some f \<Rightarrow>
                    (let st1 = st\<lparr>pending_requests := AList.delete tid (pending_requests st)\<rparr>
                     in case resolve_reply payload of
                          Raised \<Rightarrow> st1
                        | SetException e \<Rightarrow> st1\<lparr>futures := (futures st1)(f := Failed e)\<rparr>
                        | SetResult d \<Rightarrow> st1\<lparr>futures := (futures st1)(f := Done d)\<rparr>))
      | _ \<Rightarrow> st)"

text \<open>
  \<^verbatim>\<open>_on_message\<close>. \<open>raw\<close> is the decoded payload, \<open>None\<close> when decoding or
  \<^verbatim>\<open>json.loads\<close> raised; \<open>now\<close> is the reading of \<^verbatim>\<open>time.time()\<close>. A transaction id
  that is falsy returns early; one that is not a string is never a key of the table
  (or is unhashable, which raises), so the table is left as it is. Console output,
  the debug dump of a reply included, and the registered OSD callbacks, whose exceptions
  the handler discards, are outside the state and left out.
\<close>

definition on_message :: "client_state \<Rightarrow> real \<Rightarrow> json option \<Rightarrow> client_state" where
  "on_message st now raw =
     (case raw of
        Some (JObj payload) \<Rightarrow>
          (let method = dict_get payload ''method'';
               data = dict_get_default payload ''data'' (JObj [])
           in if method = JStr ''osd_info_push'' then handle_osd st now data
              else if method = JStr ''hsi_info_push'' then handle_hsi st data
              else if method = JStr ''drc_batteries_info_push'' then handle_batteries st data
              else if method = JStr ''drc_drone_state_push'' then handle_drone_state st data
              else if method = JStr ''update_topo'' then handle_topo st data
              else if method = JStr ''drc_camera_osd_info_push'' then handle_camera_osd st data
              else if method = JStr ''fly_to_point_progress'' then handle_flyto st data
              else handle_reply st payload)
      | _ \<Rightarrow> st)"

subsection \<open>What other threads do to the client while a caller waits\<close>

text \<open>
  The pending table and the futures are touched by three operations, each atomic under
  the lock: \<^verbatim>\<open>publish\<close> (a request is issued), \<^verbatim>\<open>_on_message\<close> (the dispatcher
  handles an inbound message) and \<^verbatim>\<open>cleanup_request\<close>. An execution is a sequence of
  them.
\<close>

datatype event =
    Publish string json string
  | Inbound real "json option"
  | Cleanup string

fun run_event :: "client_state \<Rightarrow> event \<Rightarrow> client_state" where
  "run_event st (Publish method data tid) = fst (publish st method data tid)"
| "run_event st (Inbound now raw) = on_message st now raw"
| "run_event st (Cleanup tid) = cleanup_request st tid"

fun run_events :: "client_state \<Rightarrow> event list \<Rightarrow> client_state" where
  "run_events st [] = st"
| "run_events st (e # es) = run_events (run_event st e) es"

subsection \<open>Telemetry readers\<close>

definition get_osd_frequency :: "client_state \<Rightarrow> real" where
  "get_osd_frequency st =
     (let ts = osd_timestamps st
      in if length ts < 2 then 0
         else (let time_span = last ts - hd ts
               in if time_span = 0 then 0
                  else (real (length ts) - 1) / time_span))"

definition is_online :: "client_state \<Rightarrow> real \<Rightarrow> real \<Rightarrow> bool" where
  "is_online st now timeout =
     (if last_osd_time st = 0 then False else now - last_osd_time st < timeout)"

definition get_flyto_progress :: "client_state \<Rightarrow> (string \<rightharpoonup> json)" where
  "get_flyto_progress st = flyto_progress st"

text \<open>\<^verbatim>\<open>progress.get(k)\<close> on a cache dictionary.\<close>

definition cache_get :: "(string \<rightharpoonup> json) \<Rightarrow> string \<Rightarrow> json" where
  "cache_get m k = (case m k of None \<Rightarrow> JNull | Some v \<Rightarrow> v)"

subsection \<open>Errors raised to callers\<close>

text \<open>
  \<open>Exception msg\<close> is the \<^verbatim>\<open>Exception(error_msg)\<close> the handler stores in a future;
  \<open>ValueError\<close> is what \<^verbatim>\<open>time.sleep\<close> raises on a negative duration and
  \<open>TypeError\<close> what a set-membership test raises on an unhashable value.
\<close>

datatype error = TimeoutError | Exception json | ValueError | TypeError

subsection \<open>\<^verbatim>\<open>wait_for_flyto_event\<close>\<close>

text \<open>
  \<^verbatim>\<open>status in terminal_statuses\<close>: a list or a dictionary is unhashable (\<open>None\<close>).
\<close>

fun in_terminal_statuses :: "json \<Rightarrow> bool option" where
  "in_terminal_statuses (JArr _) = None"
| "in_terminal_statuses (JObj _) = None"
| "in_terminal_statuses v =
     Some (v \<in> {JStr ''wayline_ok'', JStr ''wayline_failed'', JStr ''wayline_cancel''})"

text \<open>
  The polling loop. Each element of the last argument is what one iteration observes:
  the reading of \<^verbatim>\<open>time.time()\<close> at its top and the client state its
  \<^verbatim>\<open>get_flyto_progress\<close> reads. \<open>None\<close> says that the loop is still polling when the
  observations end.
\<close>

fun wait_for_flyto_event ::
  "string \<Rightarrow> real \<Rightarrow> real \<Rightarrow> real \<Rightarrow> (real \<times> client_state) list
     \<Rightarrow> (error + (string \<rightharpoonup> json)) option" where
  "wait_for_flyto_event expected_fly_to_id timeout poll_interval start_time [] = None"
| "wait_for_flyto_event expected_fly_to_id timeout poll_interval start_time ((now, st) # rest) =
     (if now - start_time > timeout then Some (Inl TimeoutError)
      else
        (let progress = get_flyto_progress st;
             event_fly_to_id = cache_get progress ''fly_to_id'';
             status = cache_get progress ''status'';
             sleep = (if poll_interval < 0 then Some (Inl ValueError)
                      else wait_for_flyto_event expected_fly_to_id timeout poll_interval
                             start_time rest)
         in if event_fly_to_id = JStr expected_fly_to_id
            then (case in_terminal_statuses status of
                    None \<Rightarrow> Some (Inl TypeError)
                  | Some True \<Rightarrow> Some (Inr progress)
                  | Some False \<Rightarrow> sleep)
            else sleep))"

section \<open>The service caller (\<^verbatim>\<open>core/service_caller.py\<close>)\<close>

text \<open>
  \<^verbatim>\<open>ServiceCaller.call\<close>. \<open>tid\<close> is the \<^verbatim>\<open>uuid4\<close> string drawn for the call and
  \<open>during\<close> what the other threads do between the \<^verbatim>\<open>publish\<close> and the moment
  \<^verbatim>\<open>future.result(timeout)\<close> returns or gives up. A future still pending then raises
  \<^verbatim>\<open>TimeoutError\<close>, which the caller answers with \<^verbatim>\<open>cleanup_request\<close>: the
  exception of \<^verbatim>\<open>concurrent.futures\<close> is the built-in one that the \<^verbatim>\<open>except\<close> clause
  names, as it is from Python 3.11 on.
\<close>

definition call ::
  "client_state \<Rightarrow> string \<Rightarrow> json \<Rightarrow> string \<Rightarrow> event list \<Rightarrow> (error + json) \<times> client_state" where
  "call st method data tid during =
     (let (st1, f) = publish st method (if truthy data then data else JObj []) tid;
          st2 = run_events st1 during
      in case futures st2 f of
           Done d \<Rightarrow> (Inr d, st2)
         | Failed e \<Rightarrow> (Inl (Exception e), st2)
         | Pending \<Rightarrow> (Inl TimeoutError, cleanup_request st2 tid))"

section \<open>The heartbeat loop (\<^verbatim>\<open>services/heartbeat.py\<close>)\<close>

text \<open>
  Clock readings and the interval are idealised as reals. One iteration either sleeps
  (\<^verbatim>\<open>time.sleep(min(interval, next_tick - now))\<close>, a \<^verbatim>\<open>ValueError\<close> that ends the
  thread when the duration is negative) or publishes the heartbeat with the next
  sequence number and moves the deadline.
\<close>

record heartbeat =
  next_tick :: real
  seq :: int

datatype hb_action = Sleep real | Send int

definition heartbeat_step :: "real \<Rightarrow> heartbeat \<Rightarrow> real \<Rightarrow> heartbeat \<times> hb_action" where
  "heartbeat_step interval hb now =
     (if now < next_tick hb then (hb, Sleep (min interval (next_tick hb - now)))
      else
        (let seq1 = seq hb + 1;
             next1 = next_tick hb + interval;
             next2 = (if next1 < now then now + interval else next1)
         in (hb\<lparr>next_tick := next2, seq := seq1\<rparr>, Send seq1)))"

text \<open>
  The loop over the iterations the thread gets to run: each element is the stop flag
  read by the \<^verbatim>\<open>while\<close> test and the reading of \<^verbatim>\<open>time.perf_counter()\<close>. The result
  lists, per iteration, the state before it, the clock reading and the action.
\<close>

fun heartbeat_loop ::
  "real \<Rightarrow> heartbeat \<Rightarrow> (bool \<times> real) list \<Rightarrow> (heartbeat \<times> real \<times> hb_action) list" where
  "heartbeat_loop interval hb [] = []"
| "heartbeat_loop interval hb ((stop, now) # rest) =
     (if stop then []
      else (case heartbeat_step interval hb now of
              (hb1, Sleep d) \<Rightarrow>
                (hb, now, Sleep d) # (if d < 0 then [] else heartbeat_loop interval hb1 rest)
            | (hb1, Send s) \<Rightarrow> (hb, now, Send s) # heartbeat_loop interval hb1 rest))"

text \<open>The deadline after the iterations that ran.\<close>

fun heartbeat_final :: "real \<Rightarrow> heartbeat \<Rightarrow> (bool \<times> real) list \<Rightarrow> heartbeat" where
  "heartbeat_final interval hb [] = hb"
| "heartbeat_final interval hb ((stop, now) # rest) =
     (if stop then hb
      else (case heartbeat_step interval hb now of
              (hb1, Sleep d) \<Rightarrow> (if d < 0 then hb1 else heartbeat_final interval hb1 rest)
            | (hb1, Send s) \<Rightarrow> heartbeat_final interval hb1 rest))"

section \<open>The connection manager (\<^verbatim>\<open>services/connection_manager.py\<close>)\<close>

datatype ConnectionState = ONLINE | RECONNECTING | OFFLINE

record config =
  offline_timeout :: real
  reconnect_attempts :: int
  reconnect_interval :: real

text \<open>
  \<open>state_log\<close> holds the lines \<^verbatim>\<open>old -> new\<close> that \<^verbatim>\<open>_set_state\<close> prints (one per
  change, which is also when the observer is called), \<open>attempt_log\<close> the attempt numbers
  printed before each \<^verbatim>\<open>_reconnect_drc()\<close>. \<open>crashed\<close> says that the monitor thread
  died of an uncaught exception.
\<close>

record manager =
  state :: ConnectionState
  stop_flag :: bool
  crashed :: bool
  state_log :: "(ConnectionState \<times> ConnectionState) list"
  attempt_log :: "int list"

definition init_manager :: manager where
  "init_manager = \<lparr> state = ONLINE, stop_flag = False, crashed = False,
                     state_log = [], attempt_log = [] \<rparr>"

definition set_state :: "manager \<Rightarrow> ConnectionState \<Rightarrow> manager" where
  "set_state m new_state =
     (if state m \<noteq> new_state
      then m\<lparr>state := new_state, state_log := state_log m @ [(state m, new_state)]\<rparr>
      else m)"

text \<open>
  What one poll of the monitor meets: whether \<^verbatim>\<open>stop()\<close> was called before the
  \<^verbatim>\<open>while\<close> test, the client and the clock that \<^verbatim>\<open>is_online\<close> reads, and, per attempt
  number of the retry loop, whether \<^verbatim>\<open>stop()\<close> was called before the attempt's test of
  the flag and what \<^verbatim>\<open>_reconnect_drc()\<close> returns. The flag is a \<^verbatim>\<open>threading.Event\<close>
  that is only ever set, so it stays set.
\<close>

record poll_env =
  stop_called :: bool
  mqtt :: client_state
  clock :: real
  stop_during :: "int \<Rightarrow> bool"
  reconnect_drc :: "int \<Rightarrow> bool"

text \<open>
  The \<^verbatim>\<open>for attempt in range(1, reconnect_attempts + 1)\<close> loop with its \<^verbatim>\<open>else\<close>
  clause, entered at \<open>attempt\<close>.
\<close>

function retry_loop :: "config \<Rightarrow> poll_env \<Rightarrow> int \<Rightarrow> manager \<Rightarrow> manager" where
  "retry_loop cfg env attempt m =
     (if attempt > reconnect_attempts cfg then set_state m OFFLINE
      else
        (let m1 = m\<lparr>stop_flag := stop_flag m \<or> stop_during env attempt\<rparr>
         in if stop_flag m1 then m1
            else
              (let m2 = m1\<lparr>attempt_log := attempt_log m1 @ [attempt]\<rparr>
               in if reconnect_drc env attempt then set_state m2 ONLINE
                  else if attempt < reconnect_attempts cfg \<and> reconnect_interval cfg < 0
                  then m2\<lparr>crashed := True\<rparr>
                  else retry_loop cfg env (attempt + 1) m2)))"
  by pat_completeness auto
termination
  by (relation "measure (\<lambda>(cfg, env, attempt, m). nat (reconnect_attempts cfg + 1 - attempt))") auto

text \<open>The body of the \<^verbatim>\<open>while\<close> loop of \<^verbatim>\<open>_monitor_loop\<close>.\<close>

definition monitor_poll :: "config \<Rightarrow> manager \<Rightarrow> poll_env \<Rightarrow> manager" where
  "monitor_poll cfg m env =
     (if \<not> is_online (mqtt env) (clock env) (offline_timeout cfg)
      then (if state m = ONLINE then retry_loop cfg env 1 (set_state m RECONNECTING) else m)
      else (if state m = RECONNECTING then set_state m ONLINE else m))"

fun monitor_loop :: "config \<Rightarrow> manager \<Rightarrow> poll_env list \<Rightarrow> manager" where
  "monitor_loop cfg m [] = m"
| "monitor_loop cfg m (env # envs) =
     (let m1 = m\<lparr>stop_flag := stop_flag m \<or> stop_called env\<rparr>
      in if stop_flag m1 \<or> crashed m1 then m1
         else monitor_loop cfg (monitor_poll cfg m1 env) envs)"

section \<open>Notions used to state the properties\<close>

text \<open>
  The method names that \<^verbatim>\<open>_on_message\<close> routes to a telemetry cache. Any other
  message is looked up in the pending table under its transaction id, provided the id is
  a non-empty string: \<open>reply_tid\<close> is that id.
\<close>

definition telemetry_methods :: "json list" where
  "telemetry_methods = [JStr ''osd_info_push'', JStr ''hsi_info_push'',
     JStr ''drc_batteries_info_push'', JStr ''drc_drone_state_push'', JStr ''update_topo'',
     JStr ''drc_camera_osd_info_push'', JStr ''fly_to_point_progress'']"

definition reply_tid :: "json option \<Rightarrow> string option" where
  "reply_tid raw =
     (case raw of
        Some (JObj payload) \<Rightarrow>
          if dict_get payload ''method'' \<in> set telemetry_methods then None
          else (case dict_get payload ''tid'' of
                  JStr tid \<Rightarrow> if tid = [] then None else Some tid
                | _ \<Rightarrow> None)
      | _ \<Rightarrow> None)"

text \<open>A telemetry (OSD) push that the handler records: its data is a dictionary.\<close>

definition is_osd_push :: "json option \<Rightarrow> bool" where
  "is_osd_push raw =
     (case raw of
        Some (JObj payload) \<Rightarrow>
          dict_get payload ''method'' = JStr ''osd_info_push'' \<and>
          (case dict_get_default payload ''data'' (JObj []) of JObj d \<Rightarrow> True | _ \<Rightarrow> False)
      | _ \<Rightarrow> False)"











text \<open>Every future of the pending table was allocated before the next one.\<close>

definition fresh_futures :: "client_state \<Rightarrow> bool" where
  "fresh_futures st = (\<forall>(k, g) \<in> set (pending_requests st). g < next_future st)"

text \<open>
  The caller of \<^verbatim>\<open>publish\<close> holds future \<open>f\<close> for transaction \<open>tid\<close>: the future is
  allocated, unresolved, and stored in the table under no other id.
\<close>

definition owned :: "string \<Rightarrow> nat \<Rightarrow> client_state \<Rightarrow> bool" where
  "owned tid f st =
     (f < next_future st \<and> futures st f = Pending \<and>
      (\<forall>(k, g) \<in> set (pending_requests st). g = f \<longrightarrow> k = tid))"

text \<open>
  \<open>n\<close> timestamps spread uniformly over \<open>d\<close> seconds from \<open>t0\<close>: the first at \<open>t0\<close>, the
  last at \<open>t0 + d\<close>; and the same timestamps arriving as telemetry pushes.
\<close>

definition uniform_time :: "nat \<Rightarrow> real \<Rightarrow> real \<Rightarrow> nat \<Rightarrow> real" where
  "uniform_time n t0 d i = t0 + real i * (d / (real n - 1))"

definition uniform_timestamps :: "nat \<Rightarrow> real \<Rightarrow> real \<Rightarrow> real list" where
  "uniform_timestamps n t0 d = map (uniform_time n t0 d) [0..<n]"

definition uniform_pushes :: "nat \<Rightarrow> real \<Rightarrow> real \<Rightarrow> (nat \<Rightarrow> json option) \<Rightarrow> event list" where
  "uniform_pushes n t0 d raw = map (\<lambda>i. Inbound (uniform_time n t0 d i) (raw i)) [0..<n]"

text \<open>
  A cached progress record that ends the wait for \<open>expected\<close>, and one that lets the
  wait go on to its next poll.
\<close>

definition progress_id :: "client_state \<Rightarrow> json" where
  "progress_id st = cache_get (get_flyto_progress st) ''fly_to_id''"

definition progress_status :: "client_state \<Rightarrow> json" where
  "progress_status st = cache_get (get_flyto_progress st) ''status''"

definition terminal_statuses :: "json list" where
  "terminal_statuses = [JStr ''wayline_ok'', JStr ''wayline_failed'', JStr ''wayline_cancel'']"

definition matching_terminal :: "string \<Rightarrow> client_state \<Rightarrow> bool" where
  "matching_terminal expected st =
     (progress_id st = JStr expected \<and> progress_status st \<in> set terminal_statuses)"

definition keeps_polling :: "string \<Rightarrow> client_state \<Rightarrow> bool" where
  "keeps_polling expected st =
     (progress_id st \<noteq> JStr expected \<or>
      in_terminal_statuses (progress_status st) = Some False)"

text \<open>The iterations of the heartbeat loop that publish.\<close>

fun is_send :: "hb_action \<Rightarrow> bool" where
  "is_send (Send s) = True"
| "is_send (Sleep d) = False"

text \<open>A log of state changes that is a path starting at \<open>s\<close>.\<close>

fun path_from :: "ConnectionState \<Rightarrow> (ConnectionState \<times> ConnectionState) list \<Rightarrow> bool" where
  "path_from s [] = True"
| "path_from s ((a, b) # rest) = (a = s \<and> path_from b rest)"

fun path_end :: "ConnectionState \<Rightarrow> (ConnectionState \<times> ConnectionState) list \<Rightarrow> ConnectionState" where
  "path_end s [] = s"
| "path_end s ((a, b) # rest) = path_end b rest"

text \<open>
  The invariant of the monitor's log: it is a path from the initial state to the current
  one and enters \<open>OFFLINE\<close> from \<open>RECONNECTING\<close> only; and, between polls, the state is
  \<open>RECONNECTING\<close> only when the loop has ended.
\<close>

definition log_inv :: "manager \<Rightarrow> bool" where
  "log_inv m =
     (path_from ONLINE (state_log m) \<and> path_end ONLINE (state_log m) = state m \<and>
      (\<forall>a. (a, OFFLINE) \<in> set (state_log m) \<longrightarrow> a = RECONNECTING))"

definition monitor_inv :: "manager \<Rightarrow> bool" where
  "monitor_inv m = (log_inv m \<and> (state m = RECONNECTING \<longrightarrow> stop_flag m \<or> crashed m))"

text \<open>Inputs for the examples: a progress event, a client whose last telemetry push
  arrived at \<open>t\<close>, a poll without stop requests, and a configuration of three attempts.\<close>

definition progress_event :: "string \<Rightarrow> string \<Rightarrow> json option" where
  "progress_event fid status =
     Some (JObj [(''method'', JStr ''fly_to_point_progress''),
                 (''data'', JObj [(''fly_to_id'', JStr fid), (''status'', JStr status)])])"

definition telemetry_at :: "real \<Rightarrow> client_state" where
  "telemetry_at t = on_message init_client t (Some (JObj [(''method'', JStr ''osd_info_push'')]))"

definition poll_at :: "client_state \<Rightarrow> real \<Rightarrow> (int \<Rightarrow> bool) \<Rightarrow> poll_env" where
  "poll_at c t results =
     \<lparr> stop_called = False, mqtt = c, clock = t, stop_during = (\<lambda>k. False),
       reconnect_drc = results \<rparr>"

definition three_attempts :: config where
  "three_attempts = \<lparr> offline_timeout = 2, reconnect_attempts = 3, reconnect_interval = 1 \<rparr>"

section \<open>Properties\<close>

subsection \<open>What each handler leaves unchanged\<close>




lemma handlers_pending [simp]:
  "pending_requests (handle_osd st now d) = pending_requests st"
  "pending_requests (handle_hsi st d) = pending_requests st"
  "pending_requests (handle_batteries st d) = pending_requests st"
  "pending_requests (handle_drone_state st d) = pending_requests st"
  "pending_requests (handle_topo st d) = pending_requests st"
  "pending_requests (handle_camera_osd st d) = pending_requests st"
  "pending_requests (handle_flyto st d) = pending_requests st"
  by (simp_all add: handle_osd_def handle_hsi_def handle_batteries_def handle_drone_state_def
      handle_topo_def handle_camera_osd_def handle_flyto_def Let_def split: json.splits)

lemma handlers_futures [simp]:
  "futures (handle_osd st now d) = futures st"
  "futures (handle_hsi st d) = futures st"
  "futures (handle_batteries st d) = futures st"
  "futures (handle_drone_state st d) = futures st"
  "futures (handle_topo st d) = futures st"
  "futures (handle_camera_osd st d) = futures st"
  "futures (handle_flyto st d) = futures st"
  by (simp_all add: handle_osd_def handle_hsi_def handle_batteries_def handle_drone_state_def
      handle_topo_def handle_camera_osd_def handle_flyto_def Let_def split: json.splits)

lemma handlers_next_future [simp]:
  "next_future (handle_osd st now d) = next_future st"
  "next_future (handle_hsi st d) = next_future st"
  "next_future (handle_batteries st d) = next_future st"
  "next_future (handle_drone_state st d) = next_future st"
  "next_future (handle_topo st d) = next_future st"
  "next_future (handle_camera_osd st d) = next_future st"
  "next_future (handle_flyto st d) = next_future st"
  by (simp_all add: handle_osd_def handle_hsi_def handle_batteries_def handle_drone_state_def
      handle_topo_def handle_camera_osd_def handle_flyto_def Let_def split: json.splits)

lemma handlers_last_osd_time [simp]:
  "last_osd_time (handle_hsi st d) = last_osd_time st"
  "last_osd_time (handle_batteries st d) = last_osd_time st"
  "last_osd_time (handle_drone_state st d) = last_osd_time st"
  "last_osd_time (handle_topo st d) = last_osd_time st"
  "last_osd_time (handle_camera_osd st d) = last_osd_time st"
  "last_osd_time (handle_flyto st d) = last_osd_time st"
  "last_osd_time (handle_reply st p) = last_osd_time st"
  by (simp_all add: handle_hsi_def handle_batteries_def handle_drone_state_def
      handle_topo_def handle_camera_osd_def handle_flyto_def handle_reply_def Let_def
      split: json.splits option.splits reply_outcome.splits)

lemma delete_absent: "map_of al k = None \<Longrightarrow> AList.delete k al = al"
  by (simp add: map_of_eq_None_iff)

lemma on_message_pending:
  "pending_requests (on_message st now raw) =
     (case reply_tid raw of
        None \<Rightarrow> pending_requests st
      | Some tid \<Rightarrow> AList.delete tid (pending_requests st))"
  by (auto simp add: on_message_def reply_tid_def telemetry_methods_def handle_reply_def Let_def
      delete_absent
      split: option.splits json.splits reply_outcome.splits)

lemma on_message_futures_other:
  "reply_tid raw = None \<Longrightarrow> futures (on_message st now raw) = futures st"
  by (auto simp add: on_message_def reply_tid_def telemetry_methods_def handle_reply_def Let_def
      split: option.splits json.splits reply_outcome.splits if_splits)

lemma on_message_next_future [simp]:
  "next_future (on_message st now raw) = next_future st"
  by (auto simp add: on_message_def handle_reply_def Let_def
      split: option.splits json.splits reply_outcome.splits)

lemma on_message_futures_reply:
  "reply_tid (Some (JObj payload)) = Some tid \<Longrightarrow>
   futures (on_message st now (Some (JObj payload))) =
     (case map_of (pending_requests st) tid of
        None \<Rightarrow> futures st
      | Some f \<Rightarrow>
          (case resolve_reply payload of
             Raised \<Rightarrow> futures st
           | SetException e \<Rightarrow> (futures st)(f := Failed e)
           | SetResult d \<Rightarrow> (futures st)(f := Done d)))"
  by (auto simp add: on_message_def reply_tid_def telemetry_methods_def handle_reply_def Let_def
      split: option.splits json.splits reply_outcome.splits if_splits)

lemma reply_tid_payload: "reply_tid raw = Some tid \<Longrightarrow> \<exists>payload. raw = Some (JObj payload)"
  by (auto simp add: reply_tid_def split: option.splits json.splits)

lemma on_message_last_osd_time:
  "last_osd_time (on_message st now raw) = (if is_osd_push raw then now else last_osd_time st)"
  by (auto simp add: on_message_def is_osd_push_def handle_osd_def Let_def
      split: option.splits json.splits)

subsection \<open>Invariants of the pending table\<close>

lemma run_event_distinct:
  "distinct (map fst (pending_requests st)) \<Longrightarrow>
   distinct (map fst (pending_requests (run_event st e)))"
  by (cases e)
     (auto simp add: publish_def Let_def cleanup_request_def on_message_pending
        distinct_update distinct_delete split: option.splits)

lemma run_events_distinct:
  "distinct (map fst (pending_requests st)) \<Longrightarrow>
   distinct (map fst (pending_requests (run_events st es)))"
  by (induction es arbitrary: st) (simp_all add: run_event_distinct)

lemma set_delete_subset: "set (AList.delete k al) \<subseteq> set al"
  by (auto simp add: AList.delete_eq)

lemma set_update_subset: "set (AList.update k v al) \<subseteq> insert (k, v) (set al)"
  by (induction al) auto

lemma run_event_fresh:
  "fresh_futures st \<Longrightarrow> fresh_futures (run_event st e)"
proof (cases e)
  case (Publish m d k)
  assume "fresh_futures st"
  then show ?thesis
    using set_update_subset[of k "next_future st" "pending_requests st"]
    by (fastforce simp add: Publish fresh_futures_def publish_def Let_def)
next
  case (Inbound now raw)
  assume "fresh_futures st"
  then show ?thesis
    using set_delete_subset
    by (fastforce simp add: Inbound fresh_futures_def on_message_pending split: option.splits)
next
  case (Cleanup k)
  assume "fresh_futures st"
  then show ?thesis
    using set_delete_subset
    by (fastforce simp add: Cleanup fresh_futures_def cleanup_request_def)
qed

lemma run_events_fresh: "fresh_futures st \<Longrightarrow> fresh_futures (run_events st es)"
  by (induction es arbitrary: st) (simp_all add: run_event_fresh)

lemma init_fresh: "fresh_futures init_client"
  by (simp add: fresh_futures_def init_client_def)

subsection \<open>A future stays pending while no reply for its id is handled\<close>

lemma owned_step:
  assumes "owned tid f st" and "\<And>now raw. e = Inbound now raw \<Longrightarrow> reply_tid raw \<noteq> Some tid"
  shows "owned tid f (run_event st e)"
proof (cases e)
  case (Publish m d k)
  show ?thesis
    using assms(1) set_update_subset[of k "next_future st" "pending_requests st"]
    by (fastforce simp add: Publish owned_def publish_def Let_def)
next
  case (Cleanup k)
  show ?thesis
    using assms(1) set_delete_subset
    by (fastforce simp add: Cleanup owned_def cleanup_request_def)
next
  case (Inbound now raw)
  have nt: "reply_tid raw \<noteq> Some tid" using assms(2) Inbound by simp
  have pend: "\<forall>(k, g) \<in> set (pending_requests (on_message st now raw)). g = f \<longrightarrow> k = tid"
    using assms(1) set_delete_subset
    by (fastforce simp add: owned_def on_message_pending split: option.splits)
  have fut: "futures (on_message st now raw) f = Pending"
  proof (cases "reply_tid raw")
    case None
    then show ?thesis using assms(1) by (simp add: on_message_futures_other owned_def)
  next
    case (Some k)
    then obtain payload where raw: "raw = Some (JObj payload)"
      using reply_tid_payload by blast
    have kt: "k \<noteq> tid" using nt Some by simp
    show ?thesis
    proof (cases "map_of (pending_requests st) k")
      case None
      then show ?thesis
        using assms(1) Some raw by (simp add: on_message_futures_reply owned_def)
    next
      case (Some g)
      then have "(k, g) \<in> set (pending_requests st)" by (rule map_of_SomeD)
      then have "g \<noteq> f" using assms(1) kt by (auto simp add: owned_def)
      then show ?thesis
        using assms(1) \<open>reply_tid raw = Some k\<close> raw Some
        by (simp add: on_message_futures_reply owned_def split: reply_outcome.splits)
    qed
  qed
  show ?thesis
    using assms(1) pend fut by (simp add: Inbound owned_def)
qed

lemma owned_run:
  "owned tid f st \<Longrightarrow> (\<forall>now raw. Inbound now raw \<in> set es \<longrightarrow> reply_tid raw \<noteq> Some tid) \<Longrightarrow>
   owned tid f (run_events st es)"
proof (induction es arbitrary: st)
  case Nil
  then show ?case by simp
next
  case (Cons e es)
  have "owned tid f (run_event st e)"
    using Cons.prems by (intro owned_step) auto
  then show ?case using Cons by simp
qed

lemma owned_publish:
  "fresh_futures st \<Longrightarrow> publish st m d tid = (st1, f) \<Longrightarrow> owned tid f st1"
  using set_update_subset[of tid "next_future st" "pending_requests st"]
  by (fastforce simp add: fresh_futures_def publish_def Let_def owned_def)

lemma call_timeout:
  assumes "fresh_futures st"
    and "\<forall>now raw. Inbound now raw \<in> set during \<longrightarrow> reply_tid raw \<noteq> Some tid"
  shows "fst (call st method data tid during) = Inl TimeoutError"
    and "tid \<notin> fst ` set (pending_requests (snd (call st method data tid during)))"
proof -
  obtain st1 f where p: "publish st method (if truthy data then data else JObj []) tid = (st1, f)"
    by (cases "publish st method (if truthy data then data else JObj []) tid")
  have "owned tid f (run_events st1 during)"
    using owned_publish[OF assms(1) p] assms(2) by (rule owned_run)
  then have pend: "futures (run_events st1 during) f = Pending"
    by (simp add: owned_def)
  show "fst (call st method data tid during) = Inl TimeoutError"
    using p pend by (simp add: call_def Let_def)
  show "tid \<notin> fst ` set (pending_requests (snd (call st method data tid during)))"
    using p pend by (simp add: call_def Let_def cleanup_request_def delete_notin_dom)
qed


subsection \<open>The online check\<close>

lemma run_event_last_osd_time:
  "(\<And>now raw. e = Inbound now raw \<Longrightarrow> \<not> is_osd_push raw) \<Longrightarrow>
   last_osd_time (run_event st e) = last_osd_time st"
  by (cases e) (simp_all add: publish_def Let_def cleanup_request_def on_message_last_osd_time)

lemma run_events_last_osd_time:
  "(\<forall>now raw. Inbound now raw \<in> set es \<longrightarrow> \<not> is_osd_push raw) \<Longrightarrow>
   last_osd_time (run_events st es) = last_osd_time st"
proof (induction es arbitrary: st)
  case Nil
  then show ?case by simp
next
  case (Cons e es)
  have "last_osd_time (run_event st e) = last_osd_time st"
    using Cons.prems by (intro run_event_last_osd_time) auto
  then show ?case using Cons by simp
qed

text \<open>
  Claim C10. \<^verbatim>\<open>is_online(timeout)\<close> is \<^verbatim>\<open>False\<close> for every timeout, however
  large, and at every clock reading, as long as the client has recorded no telemetry
  (OSD) push since it was created, whatever else it published, received or cleaned up.
  Once a push has been recorded at time \<open>t\<close> (a reading of \<^verbatim>\<open>time.time()\<close>, which is not
  the epoch \<open>0\<close>), the check compares the time since \<open>t\<close> with the timeout.
\<close>

theorem is_online_requires_telemetry:
  "((\<forall>t raw. Inbound t raw \<in> set evs \<longrightarrow> \<not> is_osd_push raw) \<longrightarrow>
      is_online (run_events init_client evs) now timeout = False) \<and>
   (is_osd_push raw \<and> t \<noteq> 0 \<longrightarrow>
      is_online (on_message st t raw) now timeout = (now - t < timeout))"
proof (intro conjI impI)
  assume "\<forall>t raw. Inbound t raw \<in> set evs \<longrightarrow> \<not> is_osd_push raw"
  then have "last_osd_time (run_events init_client evs) = last_osd_time init_client"
    by (rule run_events_last_osd_time)
  then show "is_online (run_events init_client evs) now timeout = False"
    by (simp add: is_online_def init_client_def)
next
  assume "is_osd_push raw \<and> t \<noteq> 0"
  then show "is_online (on_message st t raw) now timeout = (now - t < timeout)"
    by (simp add: is_online_def on_message_last_osd_time)
qed

text \<open>
  The theorem at a client that only saw a request, a ranging push and a cleanup, asked
  with a timeout of a million seconds; and at a client whose first telemetry push came
  at time 100.
\<close>

theorem is_online_requires_telemetry_witness:
  "is_online (run_events init_client
       [Publish ''ping'' (JObj []) ''t1'',
        Inbound 5 (Some (JObj [(''method'', JStr ''hsi_info_push''),
                               (''data'', JObj [(''down_distance'', JInt 3)])])),
        Cleanup ''t1'']) 6 1000000 = False \<and>
   is_online (on_message init_client 100
       (Some (JObj [(''method'', JStr ''osd_info_push''),
                    (''data'', JObj [(''height'', JInt 7)])]))) 101 2 = (101 - 100 < (2::real))"
proof -
  have a: "\<forall>t raw. Inbound t raw \<in> set
       [Publish ''ping'' (JObj []) ''t1'',
        Inbound 5 (Some (JObj [(''method'', JStr ''hsi_info_push''),
                               (''data'', JObj [(''down_distance'', JInt 3)])])),
        Cleanup ''t1''] \<longrightarrow> \<not> is_osd_push raw"
    by (simp add: is_osd_push_def dict_get_def)
  have b: "is_osd_push (Some (JObj [(''method'', JStr ''osd_info_push''),
                    (''data'', JObj [(''height'', JInt 7)])])) \<and> (100::real) \<noteq> 0"
    by (simp add: is_osd_push_def dict_get_def dict_get_default_def)
  show ?thesis
    using a b is_online_requires_telemetry[where evs =
       "[Publish ''ping'' (JObj []) ''t1'',
        Inbound 5 (Some (JObj [(''method'', JStr ''hsi_info_push''),
                               (''data'', JObj [(''down_distance'', JInt 3)])])),
        Cleanup ''t1'']" and now = 6 and timeout = 1000000]
      is_online_requires_telemetry[where raw =
       "Some (JObj [(''method'', JStr ''osd_info_push''),
                    (''data'', JObj [(''height'', JInt 7)])])" and t = 100 and st = init_client
        and now = 101 and timeout = 2]
    by blast
qed

subsection \<open>The pending table\<close>

text \<open>
  Claim C3. After every sequence of issued requests, inbound messages and cleanups the
  pending table holds at most one entry per transaction id; and no entry for \<open>tid\<close> is
  left once the handler has taken a message as the reply of \<open>tid\<close>, or once
  \<^verbatim>\<open>cleanup_request(tid)\<close> has run.
\<close>

theorem one_pending_request_per_tid:
  "distinct (map fst (pending_requests (run_events init_client evs))) \<and>
   (reply_tid raw = Some tid \<longrightarrow>
      tid \<notin> fst ` set (pending_requests
                 (run_event (run_events init_client evs) (Inbound now raw)))) \<and>
   tid \<notin> fst ` set (pending_requests (run_event (run_events init_client evs) (Cleanup tid)))"
proof (intro conjI impI)
  show "distinct (map fst (pending_requests (run_events init_client evs)))"
    by (rule run_events_distinct) (simp add: init_client_def)
next
  assume "reply_tid raw = Some tid"
  then show "tid \<notin> fst ` set (pending_requests
                 (run_event (run_events init_client evs) (Inbound now raw)))"
    by (simp add: on_message_pending delete_notin_dom)
next
  show "tid \<notin> fst ` set (pending_requests (run_event (run_events init_client evs) (Cleanup tid)))"
    by (simp add: cleanup_request_def delete_notin_dom)
qed

text \<open>
  The theorem after id \<open>a\<close> was issued twice and id \<open>b\<close> once, when the reply of \<open>a\<close>
  arrives.
\<close>

theorem one_pending_request_per_tid_witness:
  "reply_tid (Some (JObj [(''tid'', JStr ''a''), (''data'', JObj [(''result'', JInt 0)])]))
     = Some ''a'' \<and>
   ''a'' \<notin> fst ` set (pending_requests
       (run_event (run_events init_client
                     [Publish ''ping'' (JObj []) ''a'', Publish ''pong'' (JObj []) ''b'',
                      Publish ''ping'' (JObj []) ''a''])
          (Inbound 1 (Some (JObj [(''tid'', JStr ''a''), (''data'', JObj [(''result'', JInt 0)])])))))"
proof -
  have a: "reply_tid (Some (JObj [(''tid'', JStr ''a''), (''data'', JObj [(''result'', JInt 0)])]))
     = Some ''a''"
    by (simp add: reply_tid_def dict_get_def telemetry_methods_def)
  show ?thesis
    using a one_pending_request_per_tid[where evs =
        "[Publish ''ping'' (JObj []) ''a'', Publish ''pong'' (JObj []) ''b'',
          Publish ''ping'' (JObj []) ''a'']" and raw =
        "Some (JObj [(''tid'', JStr ''a''), (''data'', JObj [(''result'', JInt 0)])])"
        and tid = "''a''" and now = 1]
    by blast
qed

subsection \<open>Timeout of a call\<close>

lemma cleanup_absent:
  "tid \<notin> fst ` set (pending_requests st) \<Longrightarrow> cleanup_request st tid = st"
  by (simp add: cleanup_request_def)

text \<open>
  Claim C2. A call made in any reachable state of the client, during whose wait the
  handler takes no message as the reply of the call's transaction id, fails with
  \<^verbatim>\<open>TimeoutError\<close>; afterwards the pending table has no entry for that id, cleaning up
  once more leaves the state as it is, and in any state a second
  \<^verbatim>\<open>cleanup_request\<close> changes nothing after the first.
\<close>

theorem call_times_out_and_cleans_up:
  assumes "\<forall>now raw. Inbound now raw \<in> set during \<longrightarrow> reply_tid raw \<noteq> Some tid"
    and "st = run_events init_client before"
    and "st' = snd (call st method data tid during)"
  shows "fst (call st method data tid during) = Inl TimeoutError \<and>
         tid \<notin> fst ` set (pending_requests st') \<and>
         cleanup_request st' tid = st' \<and>
         cleanup_request (cleanup_request s tid) tid = cleanup_request s tid"
proof -
  have fresh: "fresh_futures st"
    unfolding assms(2) by (rule run_events_fresh) (rule init_fresh)
  have absent: "tid \<notin> fst ` set (pending_requests st')"
    unfolding assms(3) using fresh assms(1) by (rule call_timeout(2))
  show ?thesis
    using call_timeout(1)[OF fresh assms(1)] absent cleanup_absent[OF absent]
    by (simp add: cleanup_request_def delete_idem)
qed


text \<open>
  The theorem at a call \<open>mine\<close> that only sees the reply of another request and a
  telemetry push.
\<close>

theorem call_times_out_and_cleans_up_witness:
  "fst (call (run_events init_client [Publish ''takeoff'' (JObj []) ''other''])
          ''ping'' JNull ''mine''
          [Inbound 1 (Some (JObj [(''tid'', JStr ''other''), (''data'', JObj [(''result'', JInt 0)])])),
           Inbound 2 (Some (JObj [(''method'', JStr ''osd_info_push''), (''tid'', JStr ''mine'')]))])
     = Inl TimeoutError \<and>
   ''mine'' \<notin> fst ` set (pending_requests (snd
       (call (run_events init_client [Publish ''takeoff'' (JObj []) ''other''])
          ''ping'' JNull ''mine''
          [Inbound 1 (Some (JObj [(''tid'', JStr ''other''), (''data'', JObj [(''result'', JInt 0)])])),
           Inbound 2 (Some (JObj [(''method'', JStr ''osd_info_push''), (''tid'', JStr ''mine'')]))])))"
proof -
  have a: "\<forall>now raw. Inbound now raw \<in> set
          [Inbound 1 (Some (JObj [(''tid'', JStr ''other''), (''data'', JObj [(''result'', JInt 0)])])),
           Inbound 2 (Some (JObj [(''method'', JStr ''osd_info_push''), (''tid'', JStr ''mine'')]))]
        \<longrightarrow> reply_tid raw \<noteq> Some ''mine''"
    by (simp add: reply_tid_def dict_get_def telemetry_methods_def)
  show ?thesis
    using call_times_out_and_cleans_up[OF a refl refl] by blast
qed

subsection \<open>Resolution of a reply\<close>













subsection \<open>The frequency window\<close>


lemma on_message_freq_window [simp]:
  "freq_window (on_message st now raw) = freq_window st"
  by (auto simp add: on_message_def handle_reply_def handle_osd_def handle_hsi_def
      handle_batteries_def handle_drone_state_def handle_topo_def handle_camera_osd_def
      handle_flyto_def Let_def
      split: option.splits json.splits reply_outcome.splits)

lemma on_message_osd_timestamps:
  "osd_timestamps (on_message st now raw) =
     (if is_osd_push raw then push_timestamp (freq_window st) (osd_timestamps st) now
      else osd_timestamps st)"
  by (auto simp add: on_message_def is_osd_push_def handle_reply_def handle_osd_def handle_hsi_def
      handle_batteries_def handle_drone_state_def handle_topo_def handle_camera_osd_def
      handle_flyto_def Let_def
      split: option.splits json.splits reply_outcome.splits)

lemma run_events_append: "run_events st (xs @ ys) = run_events (run_events st xs) ys"
  by (induction xs arbitrary: st) simp_all

lemma run_events_freq_window [simp]: "freq_window (run_events st es) = freq_window st"
proof (induction es arbitrary: st)
  case Nil
  then show ?case by simp
next
  case (Cons e es)
  have "freq_window (run_event st e) = freq_window st"
    by (cases e) (simp_all add: publish_def Let_def cleanup_request_def)
  then show ?case using Cons by simp
qed

lemma takeWhile_stops:
  assumes "i < length xs" and "\<not> P (xs ! i)"
  shows "length (takeWhile P xs) \<le> i"
proof (rule ccontr)
  assume "\<not> length (takeWhile P xs) \<le> i"
  then have lt: "i < length (takeWhile P xs)" by simp
  then have "takeWhile P xs ! i = xs ! i" by (rule takeWhile_nth)
  moreover have "takeWhile P xs ! i \<in> set (takeWhile P xs)" using lt by simp
  ultimately have "P (xs ! i)" using set_takeWhileD by metis
  then show False using assms(2) by simp
qed

lemma uniform_time_step:
  "uniform_time n t0 d (Suc i) - uniform_time n t0 d i = d / (real n - 1)"
  by (simp add: uniform_time_def algebra_simps del: times_divide_eq_right)

lemma uniform_time_diff:
  "uniform_time n t0 d j - uniform_time n t0 d i = (real j - real i) * (d / (real n - 1))"
  by (simp add: uniform_time_def algebra_simps del: times_divide_eq_right)

lemma push_uniform:
  assumes "m < k" and "d / (real n - 1) \<le> w"
  shows "\<exists>m'. m' < k \<and>
           push_timestamp w (map (uniform_time n t0 d) [m..<k]) (uniform_time n t0 d k)
             = map (uniform_time n t0 d) [m'..<Suc k]"
proof -
  let ?f = "uniform_time n t0 d"
  let ?P = "\<lambda>t. ?f k - t > w"
  let ?xs = "map ?f [m..<Suc k]"
  let ?j = "length (takeWhile ?P ?xs)"
  have xs: "map ?f [m..<k] @ [?f k] = ?xs" using assms(1) by simp
  have idx: "k - 1 - m < length ?xs" using assms(1) by simp
  have elt: "?xs ! (k - 1 - m) = ?f (k - 1)"
    using assms(1) idx by (simp add: nth_append del: upt_Suc)
  have "?f k - ?f (k - 1) = d / (real n - 1)"
    using assms(1) uniform_time_step[of n t0 d "k - 1"] by simp
  then have "\<not> ?P (?xs ! (k - 1 - m))" using assms(2) elt by simp
  then have j: "?j \<le> k - 1 - m" using idx by (intro takeWhile_stops)
  have "push_timestamp w (map ?f [m..<k]) (?f k) = drop ?j ?xs"
    unfolding push_timestamp_def xs by (rule dropWhile_eq_drop)
  also have "\<dots> = map ?f [m + ?j..<Suc k]"
    by (simp add: drop_map del: upt_Suc)
  finally have "push_timestamp w (map ?f [m..<k]) (?f k) = map ?f [m + ?j..<Suc k]" .
  moreover have "m + ?j < k" using j assms(1) by linarith
  ultimately show ?thesis by blast
qed

lemma window_after_uniform_pushes:
  assumes "0 \<le> w" and "d / (real n - 1) \<le> w" and "\<forall>i<k. is_osd_push (raw i)"
    and "freq_window st = w" and "osd_timestamps st = []" and "0 < k"
  shows "\<exists>m. (m < k \<and> (2 \<le> k \<longrightarrow> m + 2 \<le> k)) \<and>
           osd_timestamps (run_events st
              (map (\<lambda>i. Inbound (uniform_time n t0 d i) (raw i)) [0..<k]))
             = map (uniform_time n t0 d) [m..<k]"
  using assms(3,6)
proof (induction k)
  case 0
  then show ?case by simp
next
  case (Suc k)
  let ?f = "uniform_time n t0 d"
  let ?ev = "\<lambda>i. Inbound (?f i) (raw i)"
  let ?st = "run_events st (map ?ev [0..<k])"
  have push: "is_osd_push (raw k)" using Suc.prems by simp
  have step: "osd_timestamps (run_events st (map ?ev [0..<Suc k]))
                = push_timestamp w (osd_timestamps ?st) (?f k)"
    using push assms(4) by (simp add: run_events_append on_message_osd_timestamps)
  show ?case
  proof (cases "k = 0")
    case True
    have "push_timestamp w [] (?f 0) = [?f 0]"
      using assms(1) by (simp add: push_timestamp_def)
    then have "osd_timestamps (run_events st (map ?ev [0..<Suc k])) = map ?f [0..<Suc k]"
      using step True assms(5) by simp
    then show ?thesis using True by (intro exI[of _ 0]) simp
  next
    case False
    then have "0 < k" by simp
    moreover have "\<forall>i<k. is_osd_push (raw i)" using Suc.prems by simp
    ultimately obtain m where m: "m < k" "osd_timestamps ?st = map ?f [m..<k]"
      using Suc.IH by blast
    obtain m' where m': "m' < k"
      "push_timestamp w (map ?f [m..<k]) (?f k) = map ?f [m'..<Suc k]"
      using push_uniform[OF m(1) assms(2)] by blast
    have "osd_timestamps (run_events st (map ?ev [0..<Suc k])) = map ?f [m'..<Suc k]"
      using step m(2) m'(2) by simp
    then show ?thesis using m'(1) by (intro exI[of _ m']) simp
  qed
qed

lemma ratio_cancel:
  fixes a b d :: real
  assumes "0 < a" and "0 < b" and "0 < d"
  shows "a / (a * (d / b)) = b / d"
  using assms by (simp add: field_simps)

lemma rate_of_uniform_window:
  assumes "m + 2 \<le> n" and "0 < d" and "osd_timestamps st = map (uniform_time n t0 d) [m..<n]"
  shows "get_osd_frequency st = (real n - 1) / d"
proof -
  let ?f = "uniform_time n t0 d"
  define ts where "ts = map ?f [m..<n]"
  have osd: "osd_timestamps st = ts" using assms(3) by (simp add: ts_def)
  have ne: "[m..<n] \<noteq> []" using assms(1) by simp
  have l: "last ts = ?f (n - 1)"
    unfolding ts_def using ne assms(1) by (simp add: last_map)
  have h: "hd ts = ?f m"
    unfolding ts_def using ne by (simp add: hd_map)
  have n1: "real n - 1 > 0" using assms(1) by simp
  have pos: "real n - 1 - real m > 0" using assms(1) by linarith
  have "real (n - 1) = real n - 1" using assms(1) by (simp add: of_nat_diff)
  then have span: "last ts - hd ts = (real n - 1 - real m) * (d / (real n - 1))"
    unfolding l h uniform_time_diff by simp
  have dpos: "d / (real n - 1) > 0" using n1 assms(2) by simp
  have "(real n - 1 - real m) * (d / (real n - 1)) > 0"
    using pos dpos by (rule mult_pos_pos)
  then have "last ts - hd ts > 0" by (simp only: span)
  then have nz: "last ts - hd ts \<noteq> 0" by linarith
  have len2: "\<not> length ts < 2" unfolding ts_def using assms(1) by simp
  have len: "real (length ts) - 1 = real n - 1 - real m"
    unfolding ts_def using assms(1) by (simp add: of_nat_diff)
  have "get_osd_frequency st = (real (length ts) - 1) / (last ts - hd ts)"
    using len2 nz by (simp add: get_osd_frequency_def osd Let_def)
  also have "\<dots> = (real n - 1 - real m) / ((real n - 1 - real m) * (d / (real n - 1)))"
    by (simp only: len span)
  also have "\<dots> = (real n - 1) / d"
    using pos n1 assms(2) by (rule ratio_cancel)
  finally show ?thesis .
qed



text \<open>
  Claim C9. \<^verbatim>\<open>get_osd_frequency\<close> returns 0 when the window holds fewer than two
  timestamps. When it holds \<open>n \<ge> 2\<close> timestamps spread uniformly over \<open>d > 0\<close> seconds
  (the first at the start, the last \<open>d\<close> later) it returns \<open>(n - 1) / d\<close>, exactly in
  real arithmetic and so within 1%. The same value is returned after \<open>n\<close> telemetry
  pushes arrive at those times at a fresh client, provided their spacing \<open>d / (n - 1)\<close>
  is at most the window of 2 seconds, so that eviction always leaves at least the last
  two timestamps.
\<close>

theorem frequency_window_rate:
  "(length (osd_timestamps st) < 2 \<longrightarrow> get_osd_frequency st = 0) \<and>
   (2 \<le> n \<and> 0 < d \<and> osd_timestamps st = uniform_timestamps n first d \<longrightarrow>
      get_osd_frequency st = (real n - 1) / d \<and>
      \<bar>get_osd_frequency st - (real n - 1) / d\<bar> \<le> ((real n - 1) / d) / 100) \<and>
   (2 \<le> n \<and> 0 < d \<and> d / (real n - 1) \<le> 2 \<and> (\<forall>i<n. is_osd_push (raw i)) \<longrightarrow>
      get_osd_frequency (run_events init_client (uniform_pushes n first d raw)) = (real n - 1) / d)"
proof (intro conjI impI)
  assume "length (osd_timestamps st) < 2"
  then show "get_osd_frequency st = 0" by (simp add: get_osd_frequency_def)
next
  assume a: "2 \<le> n \<and> 0 < d \<and> osd_timestamps st = uniform_timestamps n first d"
  then have "0 + 2 \<le> n" and "0 < d"
    and "osd_timestamps st = map (uniform_time n first d) [0..<n]"
    by (simp_all add: uniform_timestamps_def)
  then show r: "get_osd_frequency st = (real n - 1) / d" by (rule rate_of_uniform_window)
  have "0 \<le> (real n - 1) / d" using a by simp
  then show "\<bar>get_osd_frequency st - (real n - 1) / d\<bar> \<le> ((real n - 1) / d) / 100"
    unfolding r by simp
next
  assume a: "2 \<le> n \<and> 0 < d \<and> d / (real n - 1) \<le> 2 \<and> (\<forall>i<n. is_osd_push (raw i))"
  let ?st = "run_events init_client (uniform_pushes n first d raw)"
  have "\<exists>m. (m < n \<and> (2 \<le> n \<longrightarrow> m + 2 \<le> n)) \<and>
           osd_timestamps (run_events init_client
              (map (\<lambda>i. Inbound (uniform_time n first d i) (raw i)) [0..<n]))
             = map (uniform_time n first d) [m..<n]"
    using a by (intro window_after_uniform_pushes[where w = 2]) (simp_all add: init_client_def)
  then obtain m where "m + 2 \<le> n" and "osd_timestamps ?st = map (uniform_time n first d) [m..<n]"
    using a by (auto simp add: uniform_pushes_def)
  then show "get_osd_frequency ?st = (real n - 1) / d"
    using a by (intro rate_of_uniform_window) simp_all
qed

text \<open>
  The theorem at a window of one timestamp, at five timestamps over four seconds, and
  at 200 pushes over two seconds.
\<close>

theorem frequency_window_rate_witness:
  "get_osd_frequency (init_client\<lparr>osd_timestamps := [7]\<rparr>) = 0 \<and>
   get_osd_frequency (init_client\<lparr>osd_timestamps := uniform_timestamps 5 1 4\<rparr>) = 1 \<and>
   get_osd_frequency (run_events init_client (uniform_pushes 200 0 2
       (\<lambda>i. Some (JObj [(''method'', JStr ''osd_info_push'')])))) = 199 / 2"
proof -
  have a: "length (osd_timestamps (init_client\<lparr>osd_timestamps := [7]\<rparr>)) < 2" by simp
  have b: "2 \<le> (5::nat) \<and> 0 < (4::real) \<and>
      osd_timestamps (init_client\<lparr>osd_timestamps := uniform_timestamps 5 1 4\<rparr>)
        = uniform_timestamps 5 1 4" by simp
  have c: "2 \<le> (200::nat) \<and> 0 < (2::real) \<and> 2 / (real (200::nat) - 1) \<le> 2 \<and>
      (\<forall>i<(200::nat). is_osd_push ((\<lambda>i. Some (JObj [(''method'', JStr ''osd_info_push'')])) i))"
    by (simp add: is_osd_push_def dict_get_def dict_get_default_def)
  show ?thesis
    using a b c
      frequency_window_rate[where st = "init_client\<lparr>osd_timestamps := [7]\<rparr>"]
      frequency_window_rate[where st = "init_client\<lparr>osd_timestamps := uniform_timestamps 5 1 4\<rparr>"
         and n = 5 and d = 4 and first = 1]
      frequency_window_rate[where n = 200 and d = 2 and first = 0
         and raw = "\<lambda>i. Some (JObj [(''method'', JStr ''osd_info_push'')])"]
    by simp
qed


subsection \<open>The heartbeat deadline\<close>

lemma heartbeat_loop_stop [simp]:
  "heartbeat_loop interval hb ((True, now) # rest) = []"
  "heartbeat_final interval hb ((True, now) # rest) = hb"
  by simp_all

lemma heartbeat_loop_send:
  assumes "heartbeat_step interval hb now = (hb1, Send s)"
  shows "heartbeat_loop interval hb ((False, now) # rest)
           = (hb, now, Send s) # heartbeat_loop interval hb1 rest"
    and "heartbeat_final interval hb ((False, now) # rest) = heartbeat_final interval hb1 rest"
  using assms by simp_all

lemma heartbeat_loop_sleep:
  assumes "heartbeat_step interval hb now = (hb1, Sleep d)"
  shows "heartbeat_loop interval hb ((False, now) # rest)
           = (hb, now, Sleep d) # (if d < 0 then [] else heartbeat_loop interval hb1 rest)"
    and "heartbeat_final interval hb ((False, now) # rest)
           = (if d < 0 then hb1 else heartbeat_final interval hb1 rest)"
  using assms by simp_all

lemma heartbeat_sleeps_remaining:
  assumes "sorted (prev # map snd ticks)" and "next_tick hb \<le> prev + max 0 interval"
  shows "\<forall>(h, now, a) \<in> set (heartbeat_loop interval hb ticks).
           \<forall>dur. a = Sleep dur \<longrightarrow> dur = next_tick h - now \<and> 0 < dur"
  using assms
proof (induction ticks arbitrary: hb prev)
  case Nil
  then show ?case by simp
next
  case (Cons tick ticks)
  obtain stop now where tick: "tick = (stop, now)" by (cases tick)
  have mono: "prev \<le> now" and rest: "sorted (now # map snd ticks)"
    using Cons.prems(1) tick by simp_all
  show ?case
  proof (cases stop)
    case True
    then show ?thesis by (simp add: tick)
  next
    case False
    show ?thesis
    proof (cases "now < next_tick hb")
      case True
      have le: "next_tick hb - now \<le> max 0 interval" using Cons.prems(2) mono by linarith
      then have "0 < interval" using True by (simp add: max_def split: if_splits)
      then have dur: "min interval (next_tick hb - now) = next_tick hb - now"
        using le by (simp add: max_def min_def)
      have inv: "next_tick hb \<le> now + max 0 interval" using Cons.prems(2) mono by linarith
      have IH: "\<forall>(h, now, a) \<in> set (heartbeat_loop interval hb ticks).
           \<forall>dur. a = Sleep dur \<longrightarrow> dur = next_tick h - now \<and> 0 < dur"
        using rest inv by (rule Cons.IH)
      have step: "heartbeat_step interval hb now = (hb, Sleep (next_tick hb - now))"
        using True dur by (simp add: heartbeat_step_def)
      show ?thesis
        using True False IH
        by (simp add: tick heartbeat_loop_sleep[OF step] del: heartbeat_loop.simps)
    next
      case late: False
      let ?hb1 = "fst (heartbeat_step interval hb now)"
      have step: "heartbeat_step interval hb now = (?hb1, Send (seq hb + 1))"
        using late by (simp add: heartbeat_step_def Let_def)
      have inv: "next_tick ?hb1 \<le> now + max 0 interval"
        using late by (simp add: heartbeat_step_def Let_def max_def)
      have IH: "\<forall>(h, now, a) \<in> set (heartbeat_loop interval ?hb1 ticks).
           \<forall>dur. a = Sleep dur \<longrightarrow> dur = next_tick h - now \<and> 0 < dur"
        using rest inv by (rule Cons.IH)
      show ?thesis
        using False IH
        by (simp add: tick heartbeat_loop_send[OF step] del: heartbeat_loop.simps)
    qed
  qed
qed

lemma heartbeat_no_drift:
  assumes "\<forall>(h, now, a) \<in> set (heartbeat_loop interval hb ticks). now - next_tick h \<le> interval"
  shows "next_tick (heartbeat_final interval hb ticks) =
           next_tick hb +
           real (length (filter (\<lambda>(h, now, a). is_send a) (heartbeat_loop interval hb ticks)))
             * interval"
  using assms
proof (induction ticks arbitrary: hb)
  case Nil
  then show ?case by simp
next
  case (Cons tick ticks)
  obtain stop now where tick: "tick = (stop, now)" by (cases tick)
  show ?case
  proof (cases stop)
    case True
    then show ?thesis by (simp add: tick)
  next
    case False
    show ?thesis
    proof (cases "now < next_tick hb")
      case True
      let ?d = "min interval (next_tick hb - now)"
      have step: "heartbeat_step interval hb now = (hb, Sleep ?d)"
        using True by (simp add: heartbeat_step_def)
      show ?thesis
      proof (cases "?d < 0")
        case True
        then show ?thesis
          using False
          by (simp add: tick heartbeat_loop_sleep[OF step]
              del: heartbeat_loop.simps heartbeat_final.simps)
      next
        case nonneg: False
        have "\<forall>(h, now, a) \<in> set (heartbeat_loop interval hb ticks). now - next_tick h \<le> interval"
          using Cons.prems False nonneg
          by (simp add: tick heartbeat_loop_sleep[OF step] del: heartbeat_loop.simps)
        then show ?thesis
          using Cons.IH[of hb] False nonneg
          by (simp add: tick heartbeat_loop_sleep[OF step]
              del: heartbeat_loop.simps heartbeat_final.simps)
      qed
    next
      case late: False
      let ?hb1 = "fst (heartbeat_step interval hb now)"
      have step: "heartbeat_step interval hb now = (?hb1, Send (seq hb + 1))"
        using late by (simp add: heartbeat_step_def Let_def)
      have "now - next_tick hb \<le> interval"
        using Cons.prems False
        by (simp add: tick heartbeat_loop_send[OF step] del: heartbeat_loop.simps)
      then have nt: "next_tick ?hb1 = next_tick hb + interval"
        using late by (simp add: heartbeat_step_def Let_def)
      have "\<forall>(h, now, a) \<in> set (heartbeat_loop interval ?hb1 ticks). now - next_tick h \<le> interval"
        using Cons.prems False
        by (simp add: tick heartbeat_loop_send[OF step] del: heartbeat_loop.simps)
      then show ?thesis
        using Cons.IH[of ?hb1] False nt
        by (simp add: tick heartbeat_loop_send[OF step] algebra_simps
            del: heartbeat_loop.simps heartbeat_final.simps)
    qed
  qed
qed



text \<open>
  Claim C8. In a run of the heartbeat loop that starts with its deadline at the clock
  reading \<open>start\<close> and reads a clock that never goes back, every sleep lasts exactly the
  time remaining to the deadline. An iteration before the deadline sleeps and leaves the
  deadline alone; an iteration at or after it publishes the next sequence number and
  moves the deadline to the previous deadline plus one interval, except when the clock
  is more than one interval past the previous deadline, where the deadline becomes the
  clock reading plus one interval. Hence, as long as no iteration is that late, the
  deadline after \<open>k\<close> heartbeats is the initial one plus \<open>k\<close> intervals.
\<close>

theorem heartbeat_deadline_tracking:
  "(sorted (start # map snd ticks) \<longrightarrow>
      (\<forall>(h, now, a) \<in> set (heartbeat_loop interval \<lparr>next_tick = start, seq = seqno\<rparr> ticks).
         \<forall>dur. a = Sleep dur \<longrightarrow> dur = next_tick h - now \<and> 0 < dur)) \<and>
   (t < next_tick hb \<longrightarrow>
      heartbeat_step interval hb t = (hb, Sleep (min interval (next_tick hb - t)))) \<and>
   (next_tick hb \<le> t \<longrightarrow>
      next_tick (fst (heartbeat_step interval hb t)) =
        (if interval < t - next_tick hb then t + interval else next_tick hb + interval) \<and>
      snd (heartbeat_step interval hb t) = Send (seq hb + 1)) \<and>
   ((\<forall>(h, now, a) \<in> set (heartbeat_loop interval hb ticks). now - next_tick h \<le> interval) \<longrightarrow>
      next_tick (heartbeat_final interval hb ticks) =
        next_tick hb +
        real (length (filter (\<lambda>(h, now, a). is_send a) (heartbeat_loop interval hb ticks)))
          * interval)"
proof (intro conjI impI)
  assume "sorted (start # map snd ticks)"
  moreover have "next_tick \<lparr>next_tick = start, seq = seqno\<rparr> \<le> start + max 0 interval"
    by simp
  ultimately show "\<forall>(h, now, a) \<in> set (heartbeat_loop interval \<lparr>next_tick = start, seq = seqno\<rparr> ticks).
         \<forall>dur. a = Sleep dur \<longrightarrow> dur = next_tick h - now \<and> 0 < dur"
    by (rule heartbeat_sleeps_remaining)
next
  assume "t < next_tick hb"
  then show "heartbeat_step interval hb t = (hb, Sleep (min interval (next_tick hb - t)))"
    by (simp add: heartbeat_step_def)
next
  assume a: "next_tick hb \<le> t"
  then show "next_tick (fst (heartbeat_step interval hb t)) =
        (if interval < t - next_tick hb then t + interval else next_tick hb + interval)"
    by (auto simp add: heartbeat_step_def Let_def)
  from a show "snd (heartbeat_step interval hb t) = Send (seq hb + 1)"
    by (simp add: heartbeat_step_def Let_def)
next
  assume "\<forall>(h, now, a) \<in> set (heartbeat_loop interval hb ticks). now - next_tick h \<le> interval"
  then show "next_tick (heartbeat_final interval hb ticks) =
        next_tick hb +
        real (length (filter (\<lambda>(h, now, a). is_send a) (heartbeat_loop interval hb ticks)))
          * interval"
    by (rule heartbeat_no_drift)
qed

text \<open>
  The theorem at an interval of 0.2 s: a heartbeat at 0, a sleep of 0.15 s at 0.05, a
  heartbeat at 0.25 that keeps the deadline grid (0.4), and a heartbeat at 0.7 against
  the deadline 0.4 that re-synchronises (0.9).
\<close>

theorem heartbeat_deadline_tracking_witness:
  "heartbeat_loop (1/5) \<lparr>next_tick = 0, seq = 7\<rparr> [(False, 0), (False, 1/20), (False, 1/4)]
     = [(\<lparr>next_tick = 0, seq = 7\<rparr>, 0, Send 8),
        (\<lparr>next_tick = 1/5, seq = 8\<rparr>, 1/20, Sleep (3/20)),
        (\<lparr>next_tick = 1/5, seq = 8\<rparr>, 1/4, Send 9)] \<and>
   (3/20 :: real) = next_tick \<lparr>next_tick = 1/5, seq = 8\<rparr> - 1/20 \<and>
   heartbeat_step (1/5) \<lparr>next_tick = 1/5, seq = 8\<rparr> (1/20)
     = (\<lparr>next_tick = 1/5, seq = 8\<rparr>, Sleep (3/20)) \<and>
   next_tick (fst (heartbeat_step (1/5) \<lparr>next_tick = 1/5, seq = 8\<rparr> (1/4))) = 2/5 \<and>
   next_tick (fst (heartbeat_step (1/5) \<lparr>next_tick = 2/5, seq = 9\<rparr> (7/10))) = 9/10 \<and>
   next_tick (heartbeat_final (1/5) \<lparr>next_tick = 0, seq = 7\<rparr>
                [(False, 0), (False, 1/20), (False, 1/4)]) = 2/5"
proof -
  let ?ticks = "[(False, 0), (False, 1/20), (False, 1/4)] :: (bool \<times> real) list"
  let ?hb = "\<lparr>next_tick = 0, seq = 7\<rparr>"
  let ?hb1 = "\<lparr>next_tick = 1/5, seq = 8\<rparr>"
  have tr: "heartbeat_loop (1/5) ?hb ?ticks
     = [(?hb, 0, Send 8), (?hb1, 1/20, Sleep (3/20)), (?hb1, 1/4, Send 9)]"
    by (simp add: heartbeat_step_def Let_def)
  have mono: "sorted ((0::real) # map snd ?ticks)" by simp
  have a: "(1/20 :: real) < next_tick ?hb1" by simp
  have b: "next_tick ?hb1 \<le> (1/4 :: real)" by simp
  have c: "next_tick \<lparr>next_tick = 2/5, seq = 9\<rparr> \<le> (7/10 :: real)" by simp
  have d: "\<forall>(h, now, a) \<in> set (heartbeat_loop (1/5) ?hb ?ticks). now - next_tick h \<le> 1/5"
    unfolding tr by simp
  show ?thesis
    using tr mono a b c d
      heartbeat_deadline_tracking[where start = 0 and ticks = ?ticks and interval = "1/5"
        and seqno = 7 and hb = ?hb and t = 0]
      heartbeat_deadline_tracking[where interval = "1/5" and hb = ?hb1 and t = "1/20"
        and start = 0 and ticks = "[]"]
      heartbeat_deadline_tracking[where interval = "1/5" and hb = ?hb1 and t = "1/4"
        and start = 0 and ticks = "[]"]
      heartbeat_deadline_tracking[where interval = "1/5" and hb = "\<lparr>next_tick = 2/5, seq = 9\<rparr>"
        and t = "7/10" and start = 0 and ticks = "[]"]
    by simp
qed


subsection \<open>The wait for a fly-to event\<close>


lemma in_terminal_iff:
  "in_terminal_statuses v = Some True \<Longrightarrow> v \<in> set terminal_statuses"
  by (cases v) (simp_all add: terminal_statuses_def)

lemma wait_returns_matching:
  "wait_for_flyto_event expected timeout poll start obs = Some (Inr p) \<Longrightarrow>
   \<exists>now st. (now, st) \<in> set obs \<and> now - start \<le> timeout \<and> p = get_flyto_progress st \<and>
            matching_terminal expected st"
proof (induction obs)
  case Nil
  then show ?case by simp
next
  case (Cons ob obs)
  obtain now st where ob: "ob = (now, st)" by (cases ob)
  show ?case
  proof (cases "wait_for_flyto_event expected timeout poll start obs = Some (Inr p)")
    case True
    then show ?thesis using Cons.IH by auto
  next
    case False
    then have "now - start \<le> timeout \<and> p = get_flyto_progress st \<and>
        cache_get (get_flyto_progress st) ''fly_to_id'' = JStr expected \<and>
        in_terminal_statuses (cache_get (get_flyto_progress st) ''status'') = Some True"
      using Cons.prems
      by (simp add: ob Let_def split: if_splits option.splits bool.splits)
    then have "now - start \<le> timeout \<and> p = get_flyto_progress st \<and> matching_terminal expected st"
      by (simp add: matching_terminal_def progress_id_def progress_status_def in_terminal_iff)
    then show ?thesis by (auto simp add: ob)
  qed
qed

lemma wait_times_out:
  assumes "0 \<le> poll" and "timeout < late - start"
    and "\<forall>(now, st) \<in> set pre. now - start \<le> timeout \<and> keeps_polling expected st"
  shows "wait_for_flyto_event expected timeout poll start (pre @ (late, st') # rest)
           = Some (Inl TimeoutError)"
  using assms(3)
proof (induction pre)
  case Nil
  then show ?case using assms(2) by simp
next
  case (Cons ob pre)
  obtain now st where ob: "ob = (now, st)" by (cases ob)
  have here: "now - start \<le> timeout" and poll: "keeps_polling expected st"
    using Cons.prems by (simp_all add: ob)
  have rest: "wait_for_flyto_event expected timeout poll start (pre @ (late, st') # rest)
           = Some (Inl TimeoutError)"
    using Cons by simp
  show ?case
    using here poll rest assms(1)
    by (auto simp add: ob Let_def keeps_polling_def progress_id_def progress_status_def)
qed

text \<open>
  Claim C4. When the wait for the task \<open>expected\<close> returns a progress record, that
  record is one the wait read from the cache within the bound, its task id is
  \<open>expected\<close> and its status is terminal; so a record of another task is never returned,
  terminal or not. When every record read within the bound belongs to another task or
  has a status that is not terminal, the first poll after the bound fails with
  \<^verbatim>\<open>TimeoutError\<close> (the poll interval being a duration, not negative).
\<close>

theorem flyto_wait_matches_expected_id:
  "(wait_for_flyto_event expected timeout poll start obs = Some (Inr p) \<longrightarrow>
      cache_get p ''fly_to_id'' = JStr expected \<and>
      cache_get p ''status'' \<in> set terminal_statuses \<and>
      (\<exists>now st. (now, st) \<in> set obs \<and> now - start \<le> timeout \<and> p = get_flyto_progress st)) \<and>
   (0 \<le> poll \<and> timeout < late - start \<and>
    (\<forall>(now, st) \<in> set pre. now - start \<le> timeout \<and> keeps_polling expected st) \<longrightarrow>
      wait_for_flyto_event expected timeout poll start (pre @ (late, st') # rest)
        = Some (Inl TimeoutError))"
proof (intro conjI impI)
  assume "wait_for_flyto_event expected timeout poll start obs = Some (Inr p)"
  then obtain now st where f: "(now, st) \<in> set obs" "now - start \<le> timeout"
      "p = get_flyto_progress st" "matching_terminal expected st"
    using wait_returns_matching by blast
  from f(3,4) show "cache_get p ''fly_to_id'' = JStr expected"
    by (simp add: matching_terminal_def progress_id_def)
  from f(3,4) show "cache_get p ''status'' \<in> set terminal_statuses"
    by (simp add: matching_terminal_def progress_status_def)
  from f show "\<exists>now st. (now, st) \<in> set obs \<and> now - start \<le> timeout \<and> p = get_flyto_progress st"
    by blast
next
  assume "0 \<le> poll \<and> timeout < late - start \<and>
    (\<forall>(now, st) \<in> set pre. now - start \<le> timeout \<and> keeps_polling expected st)"
  then show "wait_for_flyto_event expected timeout poll start (pre @ (late, st') # rest)
        = Some (Inl TimeoutError)"
    by (intro wait_times_out) simp_all
qed

text \<open>
  The theorem where the cache first holds the terminal event of the stale task \<open>W\<close> and
  then the terminal event of \<open>X\<close>; and where only \<open>W\<close>'s event is seen before the bound.
\<close>

theorem flyto_wait_matches_expected_id_witness:
  "wait_for_flyto_event ''X'' 120 1 0
      [(0, on_message init_client 0 (progress_event ''W'' ''wayline_ok'')),
       (1, on_message (on_message init_client 0 (progress_event ''W'' ''wayline_ok'')) 1
             (progress_event ''X'' ''wayline_ok''))]
     = Some (Inr (get_flyto_progress
          (on_message (on_message init_client 0 (progress_event ''W'' ''wayline_ok'')) 1
             (progress_event ''X'' ''wayline_ok'')))) \<and>
   cache_get (get_flyto_progress
          (on_message (on_message init_client 0 (progress_event ''W'' ''wayline_ok'')) 1
             (progress_event ''X'' ''wayline_ok''))) ''fly_to_id'' = JStr ''X'' \<and>
   wait_for_flyto_event ''X'' 120 1 0
      ([(0, on_message init_client 0 (progress_event ''W'' ''wayline_ok''))]
         @ (121, init_client) # [])
     = Some (Inl TimeoutError)"
proof -
  let ?stW = "on_message init_client 0 (progress_event ''W'' ''wayline_ok'')"
  let ?stX = "on_message ?stW 1 (progress_event ''X'' ''wayline_ok'')"
  have w: "cache_get (get_flyto_progress ?stW) ''fly_to_id'' = JStr ''W''" by code_simp
  have x: "cache_get (get_flyto_progress ?stX) ''fly_to_id'' = JStr ''X''"
    "cache_get (get_flyto_progress ?stX) ''status'' = JStr ''wayline_ok''" by code_simp+
  have ret: "wait_for_flyto_event ''X'' 120 1 0 [(0, ?stW), (1, ?stX)]
               = Some (Inr (get_flyto_progress ?stX))"
    by (simp add: w x Let_def)
  have k: "0 \<le> (1::real) \<and> (120::real) < 121 - 0 \<and>
      (\<forall>(now, st) \<in> set [(0, ?stW)]. now - 0 \<le> (120::real) \<and> keeps_polling ''X'' st)"
    by (simp add: keeps_polling_def progress_id_def w)
  show ?thesis
    using ret k
      flyto_wait_matches_expected_id[where expected = "''X''" and timeout = 120 and poll = 1
        and start = 0 and obs = "[(0, ?stW), (1, ?stX)]" and p = "get_flyto_progress ?stX"
        and late = 121 and pre = "[(0, ?stW)]" and st' = init_client and rest = "[]"]
    by blast
qed

subsection \<open>The connection monitor\<close>


declare retry_loop.simps [simp del]

lemma path_append:
  "path_from s (lg @ [(a, b)]) = (path_from s lg \<and> a = path_end s lg)"
  "path_end s (lg @ [(a, b)]) = b"
  by (induction s lg rule: path_from.induct) auto

lemma set_state_state [simp]: "state (set_state m s) = s"
  by (simp add: set_state_def)

lemma set_state_flags [simp]:
  "stop_flag (set_state m s) = stop_flag m"
  "crashed (set_state m s) = crashed m"
  "attempt_log (set_state m s) = attempt_log m"
  by (simp_all add: set_state_def)

lemma set_state_log_inv:
  assumes "log_inv m" and "s = OFFLINE \<longrightarrow> state m = RECONNECTING \<or> state m = OFFLINE"
  shows "log_inv (set_state m s)"
  using assms by (auto simp add: log_inv_def set_state_def path_append)

lemma log_inv_cong:
  "state_log m' = state_log m \<Longrightarrow> state m' = state m \<Longrightarrow> log_inv m' = log_inv m"
  by (simp add: log_inv_def)

lemma retry_loop_exhausted:
  "reconnect_attempts cfg < attempt \<Longrightarrow> retry_loop cfg env attempt m = set_state m OFFLINE"
  by (subst retry_loop.simps) simp

lemma retry_loop_stopped:
  "attempt \<le> reconnect_attempts cfg \<Longrightarrow> stop_flag m \<or> stop_during env attempt \<Longrightarrow>
   retry_loop cfg env attempt m = m\<lparr>stop_flag := True\<rparr>"
  by (subst retry_loop.simps) (auto simp add: Let_def)

lemma retry_loop_success:
  "attempt \<le> reconnect_attempts cfg \<Longrightarrow> \<not> stop_flag m \<Longrightarrow> \<not> stop_during env attempt \<Longrightarrow>
   reconnect_drc env attempt \<Longrightarrow>
   retry_loop cfg env attempt m =
     set_state (m\<lparr>stop_flag := False, attempt_log := attempt_log m @ [attempt]\<rparr>) ONLINE"
  by (subst retry_loop.simps) (simp add: Let_def)

lemma retry_loop_crash:
  "attempt < reconnect_attempts cfg \<Longrightarrow> \<not> stop_flag m \<Longrightarrow> \<not> stop_during env attempt \<Longrightarrow>
   \<not> reconnect_drc env attempt \<Longrightarrow> reconnect_interval cfg < 0 \<Longrightarrow>
   retry_loop cfg env attempt m =
     m\<lparr>stop_flag := False, attempt_log := attempt_log m @ [attempt], crashed := True\<rparr>"
  by (subst retry_loop.simps) (simp add: Let_def)

lemma retry_loop_again:
  "attempt \<le> reconnect_attempts cfg \<Longrightarrow> \<not> stop_flag m \<Longrightarrow> \<not> stop_during env attempt \<Longrightarrow>
   \<not> reconnect_drc env attempt \<Longrightarrow>
   \<not> (attempt < reconnect_attempts cfg \<and> reconnect_interval cfg < 0) \<Longrightarrow>
   retry_loop cfg env attempt m =
     retry_loop cfg env (attempt + 1)
       (m\<lparr>stop_flag := False, attempt_log := attempt_log m @ [attempt]\<rparr>)"
  by (subst retry_loop.simps) (auto simp add: Let_def)

lemma retry_loop_inv:
  "state m = RECONNECTING \<Longrightarrow> log_inv m \<Longrightarrow> monitor_inv (retry_loop cfg env attempt m)"
proof (induction cfg env attempt m rule: retry_loop.induct)
  case (1 cfg env attempt m)
  let ?m2 = "m\<lparr>stop_flag := False, attempt_log := attempt_log m @ [attempt]\<rparr>"
  have m2: "state ?m2 = RECONNECTING" "log_inv ?m2"
    using "1.prems" by (simp_all add: log_inv_def)
  consider (exhausted) "reconnect_attempts cfg < attempt"
    | (stopped) "attempt \<le> reconnect_attempts cfg" "stop_flag m \<or> stop_during env attempt"
    | (success) "attempt \<le> reconnect_attempts cfg" "\<not> stop_flag m" "\<not> stop_during env attempt"
        "reconnect_drc env attempt"
    | (crash) "attempt < reconnect_attempts cfg" "\<not> stop_flag m" "\<not> stop_during env attempt"
        "\<not> reconnect_drc env attempt" "reconnect_interval cfg < 0"
    | (again) "attempt \<le> reconnect_attempts cfg" "\<not> stop_flag m" "\<not> stop_during env attempt"
        "\<not> reconnect_drc env attempt"
        "\<not> (attempt < reconnect_attempts cfg \<and> reconnect_interval cfg < 0)"
    by linarith
  then show ?case
  proof cases
    case exhausted
    have "log_inv (set_state m OFFLINE)"
      using "1.prems" by (intro set_state_log_inv) simp_all
    then show ?thesis
      by (simp add: retry_loop_exhausted[OF exhausted] monitor_inv_def)
  next
    case stopped
    have "log_inv (m\<lparr>stop_flag := True\<rparr>)" using "1.prems" by (simp add: log_inv_def)
    then show ?thesis
      by (simp add: retry_loop_stopped[OF stopped] monitor_inv_def)
  next
    case success
    have "log_inv (set_state ?m2 ONLINE)"
      using m2 by (intro set_state_log_inv) simp_all
    then show ?thesis
      by (simp add: retry_loop_success[OF success] monitor_inv_def)
  next
    case crash
    have "log_inv (?m2\<lparr>crashed := True\<rparr>)" using "1.prems" by (simp add: log_inv_def)
    then show ?thesis
      by (simp add: retry_loop_crash[OF crash] monitor_inv_def)
  next
    case again
    have "monitor_inv (retry_loop cfg env (attempt + 1) ?m2)"
      using again m2 "1.IH"[of "m\<lparr>stop_flag := stop_flag m \<or> stop_during env attempt\<rparr>" ?m2]
      by simp
    then show ?thesis
      by (simp add: retry_loop_again[OF again])
  qed
qed

lemma monitor_poll_inv:
  assumes "monitor_inv m" and "\<not> stop_flag m" and "\<not> crashed m"
  shows "monitor_inv (monitor_poll cfg m env)"
proof -
  have nr: "state m \<noteq> RECONNECTING" and li: "log_inv m"
    using assms by (auto simp add: monitor_inv_def)
  show ?thesis
  proof (cases "\<not> is_online (mqtt env) (clock env) (offline_timeout cfg) \<and> state m = ONLINE")
    case True
    have "log_inv (set_state m RECONNECTING)"
      using li by (intro set_state_log_inv) simp_all
    then have "monitor_inv (retry_loop cfg env 1 (set_state m RECONNECTING))"
      by (intro retry_loop_inv) simp_all
    then show ?thesis using True by (simp add: monitor_poll_def)
  next
    case False
    then have "monitor_poll cfg m env = m" using nr by (auto simp add: monitor_poll_def)
    then show ?thesis using assms(1) by simp
  qed
qed

lemma monitor_loop_inv: "monitor_inv m \<Longrightarrow> monitor_inv (monitor_loop cfg m envs)"
proof (induction envs arbitrary: m)
  case Nil
  then show ?case by simp
next
  case (Cons env envs)
  let ?m1 = "m\<lparr>stop_flag := stop_flag m \<or> stop_called env\<rparr>"
  have m1: "monitor_inv ?m1" using Cons.prems by (auto simp add: monitor_inv_def log_inv_def)
  show ?case
  proof (cases "stop_flag ?m1 \<or> crashed ?m1")
    case True
    then have "monitor_loop cfg m (env # envs) = ?m1" by (simp add: Let_def)
    then show ?thesis using m1 by simp
  next
    case False
    then have "monitor_loop cfg m (env # envs) = monitor_loop cfg (monitor_poll cfg ?m1 env) envs"
      by (simp add: Let_def)
    moreover have "monitor_inv (monitor_poll cfg ?m1 env)"
      using m1 False by (intro monitor_poll_inv) simp_all
    ultimately show ?thesis using Cons.IH by simp
  qed
qed

lemma init_monitor_inv: "monitor_inv init_manager"
  by (simp add: monitor_inv_def log_inv_def init_manager_def)

text \<open>
  Claim C5. In every execution of the monitor loop from its initial state \<open>ONLINE\<close>, the
  state changes form a path from \<open>ONLINE\<close> to the current state in which no change goes
  from \<open>ONLINE\<close> to \<open>OFFLINE\<close>: every change into \<open>OFFLINE\<close> comes from \<open>RECONNECTING\<close>.
\<close>

theorem online_never_directly_offline:
  "(ONLINE, OFFLINE) \<notin> set (state_log (monitor_loop cfg init_manager polls)) \<and>
   path_from ONLINE (state_log (monitor_loop cfg init_manager polls)) \<and>
   path_end ONLINE (state_log (monitor_loop cfg init_manager polls))
     = state (monitor_loop cfg init_manager polls) \<and>
   (\<forall>a. (a, OFFLINE) \<in> set (state_log (monitor_loop cfg init_manager polls))
      \<longrightarrow> a = RECONNECTING)"
proof -
  have "monitor_inv (monitor_loop cfg init_manager polls)"
    using init_monitor_inv by (rule monitor_loop_inv)
  then show ?thesis by (auto simp add: monitor_inv_def log_inv_def)
qed

lemma reconnecting_only_when_loop_ended:
  "state (monitor_loop cfg init_manager polls) = RECONNECTING \<Longrightarrow>
   stop_flag (monitor_loop cfg init_manager polls) \<or> crashed (monitor_loop cfg init_manager polls)"
  using monitor_loop_inv[OF init_monitor_inv, of cfg polls] by (simp add: monitor_inv_def)

subsection \<open>Exhausted retries\<close>

lemma retry_all_fail:
  assumes "\<forall>k. attempt \<le> k \<and> k \<le> reconnect_attempts cfg
              \<longrightarrow> \<not> reconnect_drc env k \<and> \<not> stop_during env k"
    and "\<not> stop_flag m" and "0 \<le> reconnect_interval cfg" and "state m = RECONNECTING"
  shows "state (retry_loop cfg env attempt m) = OFFLINE \<and>
         attempt_log (retry_loop cfg env attempt m)
           = attempt_log m @ [attempt..reconnect_attempts cfg]"
  using assms
proof (induction cfg env attempt m rule: retry_loop.induct)
  case (1 cfg env attempt m)
  let ?m2 = "m\<lparr>stop_flag := False, attempt_log := attempt_log m @ [attempt]\<rparr>"
  show ?case
  proof (cases "reconnect_attempts cfg < attempt")
    case True
    then show ?thesis by (simp add: retry_loop_exhausted)
  next
    case False
    then have le: "attempt \<le> reconnect_attempts cfg" by simp
    have here: "\<not> reconnect_drc env attempt" "\<not> stop_during env attempt"
      using "1.prems"(1) le by auto
    have again: "retry_loop cfg env attempt m = retry_loop cfg env (attempt + 1) ?m2"
      using le "1.prems"(2,3) here by (intro retry_loop_again) simp_all
    have "state (retry_loop cfg env (attempt + 1) ?m2) = OFFLINE \<and>
         attempt_log (retry_loop cfg env (attempt + 1) ?m2)
           = attempt_log ?m2 @ [attempt + 1..reconnect_attempts cfg]"
      using False "1.prems" here
        "1.IH"[of "m\<lparr>stop_flag := stop_flag m \<or> stop_during env attempt\<rparr>" ?m2]
      by simp
    then show ?thesis
      using again le by (simp add: upto_rec1[of attempt])
  qed
qed

lemma offline_poll: "state m = OFFLINE \<Longrightarrow> monitor_poll cfg m env = m"
  by (simp add: monitor_poll_def)

lemma offline_loop:
  "state m = OFFLINE \<Longrightarrow>
   state (monitor_loop cfg m polls) = OFFLINE \<and>
   attempt_log (monitor_loop cfg m polls) = attempt_log m \<and>
   state_log (monitor_loop cfg m polls) = state_log m"
proof (induction polls arbitrary: m)
  case Nil
  then show ?case by simp
next
  case (Cons env polls)
  let ?m1 = "m\<lparr>stop_flag := stop_flag m \<or> stop_called env\<rparr>"
  have s: "state ?m1 = OFFLINE" using Cons.prems by simp
  show ?case
  proof (cases "stop_flag ?m1 \<or> crashed ?m1")
    case True
    then have "monitor_loop cfg m (env # polls) = ?m1" by (simp add: Let_def)
    then show ?thesis using Cons.prems by simp
  next
    case False
    then have "monitor_loop cfg m (env # polls) = monitor_loop cfg (monitor_poll cfg ?m1 env) polls"
      by (simp add: Let_def)
    then have "monitor_loop cfg m (env # polls) = monitor_loop cfg ?m1 polls"
      by (simp only: offline_poll[OF s])
    then show ?thesis using Cons.IH[OF s] by simp
  qed
qed

text \<open>
  Claim C6. A poll that finds the telemetry stale in state \<open>ONLINE\<close> and whose
  \<open>reconnect_attempts\<close> re-entry attempts all fail (no stop request in between, the retry
  interval a duration) ends in state \<open>OFFLINE\<close>, having made exactly the attempts
  \<open>1 .. reconnect_attempts\<close>. From \<open>OFFLINE\<close> a poll changes nothing, and whatever polls
  follow the state stays \<open>OFFLINE\<close> with no further attempt and no further state change.
\<close>

theorem offline_after_exhausted_retries:
  "(state m = ONLINE \<and> \<not> stop_flag m \<and>
    \<not> is_online (mqtt env) (clock env) (offline_timeout cfg) \<and>
    0 \<le> reconnect_interval cfg \<and>
    (\<forall>k. 1 \<le> k \<and> k \<le> reconnect_attempts cfg
           \<longrightarrow> \<not> reconnect_drc env k \<and> \<not> stop_during env k) \<longrightarrow>
      state (monitor_poll cfg m env) = OFFLINE \<and>
      attempt_log (monitor_poll cfg m env) = attempt_log m @ [1..reconnect_attempts cfg]) \<and>
   (state m = OFFLINE \<longrightarrow>
      monitor_poll cfg m env = m \<and>
      state (monitor_loop cfg m polls) = OFFLINE \<and>
      attempt_log (monitor_loop cfg m polls) = attempt_log m \<and>
      state_log (monitor_loop cfg m polls) = state_log m)"
proof (intro conjI impI)
  assume a: "state m = ONLINE \<and> \<not> stop_flag m \<and>
    \<not> is_online (mqtt env) (clock env) (offline_timeout cfg) \<and>
    0 \<le> reconnect_interval cfg \<and>
    (\<forall>k. 1 \<le> k \<and> k \<le> reconnect_attempts cfg
           \<longrightarrow> \<not> reconnect_drc env k \<and> \<not> stop_during env k)"
  then have mp: "monitor_poll cfg m env = retry_loop cfg env 1 (set_state m RECONNECTING)"
    by (simp add: monitor_poll_def)
  have r: "state (retry_loop cfg env 1 (set_state m RECONNECTING)) = OFFLINE \<and>
         attempt_log (retry_loop cfg env 1 (set_state m RECONNECTING))
           = attempt_log (set_state m RECONNECTING) @ [1..reconnect_attempts cfg]"
    using a by (intro retry_all_fail) simp_all
  from r show "state (monitor_poll cfg m env) = OFFLINE" by (simp add: mp)
  from r show "attempt_log (monitor_poll cfg m env) = attempt_log m @ [1..reconnect_attempts cfg]"
    by (simp add: mp)
next
  assume "state m = OFFLINE"
  then show "monitor_poll cfg m env = m" by (rule offline_poll)
next
  assume a: "state m = OFFLINE"
  from offline_loop[OF a] show "state (monitor_loop cfg m polls) = OFFLINE" by simp
  from offline_loop[OF a] show "attempt_log (monitor_loop cfg m polls) = attempt_log m" by simp
  from offline_loop[OF a] show "state_log (monitor_loop cfg m polls) = state_log m" by simp
qed



text \<open>
  A poll whose \<^verbatim>\<open>while\<close> test passes never starts in state \<open>RECONNECTING\<close>.
\<close>

lemma poll_entered_not_reconnecting:
  assumes "m = monitor_loop cfg init_manager polls"
    and "\<not> (stop_flag m \<or> stop_called env) \<and> \<not> crashed m"
  shows "state (m\<lparr>stop_flag := stop_flag m \<or> stop_called env\<rparr>) \<noteq> RECONNECTING"
  using assms reconnecting_only_when_loop_ended[of cfg polls] by auto

text \<open>
  Claim C5 at a run that reaches \<open>OFFLINE\<close>: three failed attempts after telemetry went
  stale.
\<close>

theorem online_never_directly_offline_witness:
  "(RECONNECTING, OFFLINE) \<in> set (state_log (monitor_loop three_attempts init_manager
        [poll_at (telemetry_at 100) 103 (\<lambda>k. False)])) \<and>
   (ONLINE, OFFLINE) \<notin> set (state_log (monitor_loop three_attempts init_manager
        [poll_at (telemetry_at 100) 103 (\<lambda>k. False)])) \<and>
   state (monitor_loop three_attempts init_manager
        [poll_at (telemetry_at 100) 103 (\<lambda>k. False)]) = OFFLINE"
proof -
  have a: "(RECONNECTING, OFFLINE) \<in> set (state_log (monitor_loop three_attempts init_manager
        [poll_at (telemetry_at 100) 103 (\<lambda>k. False)]))" by code_simp
  have b: "state (monitor_loop three_attempts init_manager
        [poll_at (telemetry_at 100) 103 (\<lambda>k. False)]) = OFFLINE" by code_simp
  show ?thesis
    using a b online_never_directly_offline[where cfg = three_attempts
        and polls = "[poll_at (telemetry_at 100) 103 (\<lambda>k. False)]"]
    by blast
qed

text \<open>
  Claim C6 at the same poll, followed by a poll at which telemetry is back and a
  re-entry would succeed.
\<close>

theorem offline_after_exhausted_retries_witness:
  "state (monitor_poll three_attempts init_manager (poll_at (telemetry_at 100) 103 (\<lambda>k. False)))
     = OFFLINE \<and>
   attempt_log (monitor_poll three_attempts init_manager
                  (poll_at (telemetry_at 100) 103 (\<lambda>k. False))) = [1, 2, 3] \<and>
   state (monitor_loop three_attempts
            (monitor_poll three_attempts init_manager (poll_at (telemetry_at 100) 103 (\<lambda>k. False)))
            [poll_at (telemetry_at 104) 105 (\<lambda>k. True)]) = OFFLINE \<and>
   attempt_log (monitor_loop three_attempts
            (monitor_poll three_attempts init_manager (poll_at (telemetry_at 100) 103 (\<lambda>k. False)))
            [poll_at (telemetry_at 104) 105 (\<lambda>k. True)]) = [1, 2, 3]"
proof -
  let ?env = "poll_at (telemetry_at 100) 103 (\<lambda>k. False)"
  let ?m = "monitor_poll three_attempts init_manager ?env"
  have off: "\<not> is_online (mqtt ?env) (clock ?env) (offline_timeout three_attempts)"
    by code_simp
  have hyp: "state init_manager = ONLINE \<and> \<not> stop_flag init_manager \<and>
    \<not> is_online (mqtt ?env) (clock ?env) (offline_timeout three_attempts) \<and>
    0 \<le> reconnect_interval three_attempts \<and>
    (\<forall>k. 1 \<le> k \<and> k \<le> reconnect_attempts three_attempts
           \<longrightarrow> \<not> reconnect_drc ?env k \<and> \<not> stop_during ?env k)"
    using off by (simp add: init_manager_def three_attempts_def poll_at_def)
  have up: "[1..reconnect_attempts three_attempts] = [1, 2, 3]" by code_simp
  have first: "state ?m = OFFLINE \<and> attempt_log ?m = [1, 2, 3]"
    using hyp up offline_after_exhausted_retries[where m = init_manager and env = ?env
        and cfg = three_attempts]
    by (simp add: init_manager_def)
  then have s: "state ?m = OFFLINE" by simp
  show ?thesis
    using first s offline_after_exhausted_retries[where m = ?m and cfg = three_attempts
        and polls = "[poll_at (telemetry_at 104) 105 (\<lambda>k. True)]"]
    by simp
qed

text \<open>
  Claim C7. The claim asks for an execution that returns from \<open>RECONNECTING\<close> to \<open>ONLINE\<close>
  because telemetry resumed, with no re-entry attempt succeeding. The loop has a branch
  for it, but the branch is tested at the top of a poll only, and by
  \<open>poll_entered_not_reconnecting\<close> no poll is entered in state \<open>RECONNECTING\<close>: the retry
  loop runs to its end inside one poll and never reads the telemetry. Here telemetry
  stops at 100, the poll at 103 starts three attempts that fail, telemetry resumes at
  104; the monitor is \<open>OFFLINE\<close> and stays so at the poll at 105, where the online check
  holds.
\<close>

theorem resumed_telemetry_stays_offline:
  "is_online (telemetry_at 104) 105 (offline_timeout three_attempts) \<and>
   monitor_loop three_attempts init_manager
     [poll_at (telemetry_at 100) 103 (\<lambda>k. False),
      poll_at (telemetry_at 104) 105 (\<lambda>k. False)]
     = \<lparr> state = OFFLINE, stop_flag = False, crashed = False,
         state_log = [(ONLINE, RECONNECTING), (RECONNECTING, OFFLINE)],
         attempt_log = [1, 2, 3] \<rparr>"
  by code_simp


end
